theory Spec2Isabelle
  imports Main
begin

section \<open>The GROUP-BY operator of the HQPS engine (group\_by.h)\<close>

text \<open>
  The operator lives in two layers.  The first is computed by the C++ compiler: class
  templates map the type of the input context and of the descriptors to the type of the
  output context.  A template that has no matching specialisation makes the call
  ill-formed, so it is a partial function here (\<open>None\<close>: the program is rejected).
  The second layer is the code that runs: one pass over the rows of the context.
\<close>

subsection \<open>Types of columns and descriptors\<close>

text \<open>
  Element and property types.  \<open>EmptyType\<close> is \<^verbatim>\<open>grape::EmptyType\<close>, the property type of
  a selector that selects the element itself; \<open>Prim n\<close> is any other named type and
  \<open>vector T\<close> is \<^verbatim>\<open>std::vector<T>\<close>.
\<close>

datatype ty = EmptyType | size_t | Prim string | vector ty

text \<open>
  Column classes: \<^verbatim>\<open>Collection<T>\<close>, \<^verbatim>\<open>RowVertexSet<LabelT, VID_T, SET_T...>\<close>,
  \<^verbatim>\<open>TwoLabelVertexSet<VID_T, LabelT, SET_T...>\<close>; \<open>OtherSet\<close> is any other column class
  (a keyed set, a general vertex set), by its name.
\<close>

datatype set_t =
    Collection ty
  | RowVertexSet ty ty "ty list"
  | TwoLabelVertexSet ty ty "ty list"
  | OtherSet string

text \<open>
  The aggregate functions this file and its table name.  \<^verbatim>\<open>SUM\<close>, \<^verbatim>\<open>MIN\<close> and \<^verbatim>\<open>MAX\<close>
  carry a suffix because HOL reads the bare words as binders.
\<close>

datatype AggFunc =
  SUM_agg | MIN_agg | MAX_agg | COUNT | COUNT_DISTINCT | TO_LIST | TO_SET | FIRST

text \<open>
  \<^verbatim>\<open>AggregateProp<agg_func, std::tuple<PropertySelector<T>...>, std::integer_sequence<int, Is...>>\<close>:
  the function, the property type of each selector and the tags of the source columns.
\<close>

record AggregateProp =
  agg_func :: AggFunc
  selectors :: "ty list"
  tag_ids :: "int list"

text \<open>\<^verbatim>\<open>GroupKey<col_id, T>\<close>: the key column and the property type of its selector.\<close>

record GroupKey =
  col_id :: int
  prop_t :: ty

text \<open>
  \<^verbatim>\<open>Context<HEAD_T, cur_alias, base_tag, PREV...>\<close>.  A context without previous columns
  is written \<^verbatim>\<open>Context<HEAD_T, cur_alias, base_tag, grape::EmptyType>\<close> in the source;
  here its \<open>prev_t\<close> is the empty list.
\<close>

record ctx_t =
  head_t :: set_t
  cur_alias :: int
  base_tag :: int
  prev_t :: "set_t list"

text \<open>
  What group\_by.h takes from the headers it includes (context.h, keyed.h, params.h):
  \<^item> \<open>GetNode\<close>: the class of the column \<^verbatim>\<open>ctx.template GetNode<tag>()\<close> returns;
  \<^item> \<open>max_tag_id\<close>: the static member \<^verbatim>\<open>CTX_T::max_tag_id\<close>;
  \<^item> \<open>keyed_set_t\<close>: \<^verbatim>\<open>KeyedT<set_t, PropertySelector<T>>::keyed_set_t\<close>;
  \<^item> \<open>builder_result_t\<close>: \<^verbatim>\<open>set_t::builder_t::result_t\<close>;
  \<^item> \<open>AggFirst\<close>: \<^verbatim>\<open>AggFirst<set_t>::result_t\<close>;
  \<^item> \<open>selector_tag_id\<close>: \<^verbatim>\<open>GROUP_KEY::selector_t::tag_id\<close>, the tag the selector type of
    a group key carries, which the one-key loop reads the key at (lines 364--365);
  \<^item> \<open>make_offset_vector\<close>: the function of that name, which group\_by.h calls with a
    number of vectors and a number of groups and whose result it stores in the context.
  None of them is defined in group\_by.h, so they are parameters of every definition
  that uses them, and nothing is assumed of them.
\<close>

record decls =
  GetNode :: "ctx_t \<Rightarrow> int \<Rightarrow> set_t"
  max_tag_id :: "ctx_t \<Rightarrow> int"
  keyed_set_t :: "set_t \<Rightarrow> ty \<Rightarrow> set_t"
  builder_result_t :: "set_t \<Rightarrow> set_t"
  AggFirst :: "set_t \<Rightarrow> set_t"
  selector_tag_id :: "GroupKey \<Rightarrow> int"
  make_offset_vector :: "nat \<Rightarrow> nat \<Rightarrow> nat list list"

subsection \<open>The aggregate result resolver (lines 57--162)\<close>

text \<open>
  \<^verbatim>\<open>GroupValueResTImpl<SET_T, agg_func, SELECTOR_TUPLE>::result_t\<close>: one case per
  partial specialisation, in the order of the source; the last case is the primary
  template, which is declared and never defined.  No two specialisations match the same
  arguments, so the order decides nothing.
\<close>

definition GroupValueResTImpl :: "(set_t \<Rightarrow> set_t) \<Rightarrow> set_t \<Rightarrow> AggFunc \<Rightarrow> ty list \<Rightarrow> set_t option" where
  "GroupValueResTImpl AF SET_T f sel =
    (case (SET_T, f, sel) of
       (SET_T, COUNT, [EmptyType]) \<Rightarrow> Some (Collection size_t)
     | (SET_T, COUNT_DISTINCT, [EmptyType]) \<Rightarrow> Some (Collection size_t)
     | (Collection T, SUM_agg, [EmptyType]) \<Rightarrow> Some (Collection T)
     | (Collection T, TO_SET, [EmptyType]) \<Rightarrow> Some (Collection (vector T))
     | (RowVertexSet LabelT VID_T SET_Ts, TO_SET, [PropT]) \<Rightarrow>
         Some (Collection (vector PropT))
     | (Collection T, TO_LIST, [EmptyType]) \<Rightarrow> Some (Collection (vector T))
     | (RowVertexSet LabelT VID_T SET_Ts, TO_LIST, [PropT]) \<Rightarrow>
         Some (Collection (vector PropT))
     | (Collection T, MIN_agg, [EmptyType]) \<Rightarrow> Some (Collection T)
     | (RowVertexSet LabelT VID_T SET_Ts, MAX_agg, [T]) \<Rightarrow> Some (Collection T)
     | (RowVertexSet LabelT VID_T SET_Ts, FIRST, [T]) \<Rightarrow>
         Some (AF (RowVertexSet LabelT VID_T SET_Ts))
     | (TwoLabelVertexSet VID_T LabelT SET_Ts, FIRST, [EmptyType]) \<Rightarrow>
         Some (AF (TwoLabelVertexSet VID_T LabelT SET_Ts))
     | (Collection T, FIRST, [EmptyType]) \<Rightarrow> Some (AF (Collection T))
     | _ \<Rightarrow> None)"

text \<open>
  \<^verbatim>\<open>GroupValueResT<CTX_T, AggregateProp<agg_func, std::tuple<SELECTOR...>,
  std::integer_sequence<int, Is>>>\<close> (lines 60--68): specialised for one source tag only.
\<close>

definition GroupValueResT :: "decls \<Rightarrow> ctx_t \<Rightarrow> AggregateProp \<Rightarrow> set_t option" where
  "GroupValueResT D CTX_T agg =
     (case tag_ids agg of
        [Is] \<Rightarrow> GroupValueResTImpl (AggFirst D) (GetNode D CTX_T Is) (agg_func agg) (selectors agg)
      | _ \<Rightarrow> None)"

text \<open>
  The table of section 4.1 of the specification as data.  A row gives the source shape,
  the kind of property, the function and the result shape.  The kinds of property are
  the three the table's words distinguish: ``property = identity''; ``property P'', a
  property of the vertex, which the identity is not; and no property named at all, which
  excludes no selector.
\<close>

datatype shape_pat = AnyShape | GenericCollection | VertexSet | TwoLabelSet

datatype prop_pat = IdentityProp | PropertyP | AnyProp

datatype result_pat =
    ScalarCount
  | CollectionOfT
  | CollectionOfListOfT
  | CollectionOfListOfP
  | CollectionOfP
  | FirstPolicy

text \<open>
  The table in the spec's words: the rows on ``any'' shape say ``property = identity'',
  the rows on a vertex set say ``property P'', the rows on a generic collection and on a
  two-label vertex set name no property.
\<close>

definition spec_table :: "(shape_pat \<times> prop_pat \<times> AggFunc \<times> result_pat) list" where
  "spec_table =
    [(AnyShape, IdentityProp, COUNT, ScalarCount),
     (AnyShape, IdentityProp, COUNT_DISTINCT, ScalarCount),
     (GenericCollection, AnyProp, SUM_agg, CollectionOfT),
     (GenericCollection, AnyProp, MIN_agg, CollectionOfT),
     (GenericCollection, AnyProp, TO_SET, CollectionOfListOfT),
     (GenericCollection, AnyProp, TO_LIST, CollectionOfListOfT),
     (GenericCollection, AnyProp, FIRST, FirstPolicy),
     (VertexSet, PropertyP, TO_LIST, CollectionOfListOfP),
     (VertexSet, PropertyP, TO_SET, CollectionOfListOfP),
     (VertexSet, PropertyP, MAX_agg, CollectionOfP),
     (VertexSet, PropertyP, FIRST, FirstPolicy),
     (TwoLabelSet, AnyProp, FIRST, FirstPolicy)]"

text \<open>
  The table as amended: the same rows, where the rows on a generic collection and on a
  two-label vertex set hold for the identity selector only and the rows on a vertex set
  hold for every selector, the identity included.
\<close>

definition amended_table :: "(shape_pat \<times> prop_pat \<times> AggFunc \<times> result_pat) list" where
  "amended_table =
    [(AnyShape, IdentityProp, COUNT, ScalarCount),
     (AnyShape, IdentityProp, COUNT_DISTINCT, ScalarCount),
     (GenericCollection, IdentityProp, SUM_agg, CollectionOfT),
     (GenericCollection, IdentityProp, MIN_agg, CollectionOfT),
     (GenericCollection, IdentityProp, TO_SET, CollectionOfListOfT),
     (GenericCollection, IdentityProp, TO_LIST, CollectionOfListOfT),
     (GenericCollection, IdentityProp, FIRST, FirstPolicy),
     (VertexSet, AnyProp, TO_LIST, CollectionOfListOfP),
     (VertexSet, AnyProp, TO_SET, CollectionOfListOfP),
     (VertexSet, AnyProp, MAX_agg, CollectionOfP),
     (VertexSet, AnyProp, FIRST, FirstPolicy),
     (TwoLabelSet, IdentityProp, FIRST, FirstPolicy)]"

fun shape_matches :: "shape_pat \<Rightarrow> set_t \<Rightarrow> bool" where
  "shape_matches AnyShape s = True"
| "shape_matches GenericCollection (Collection T) = True"
| "shape_matches VertexSet (RowVertexSet l v ss) = True"
| "shape_matches TwoLabelSet (TwoLabelVertexSet v l ss) = True"
| "shape_matches p s = False"

fun prop_matches :: "prop_pat \<Rightarrow> ty \<Rightarrow> bool" where
  "prop_matches IdentityProp P = (P = EmptyType)"
| "prop_matches PropertyP P = (P \<noteq> EmptyType)"
| "prop_matches AnyProp P = True"

fun element_t :: "set_t \<Rightarrow> ty" where
  "element_t (Collection T) = T"
| "element_t s = EmptyType"

fun result_shape :: "(set_t \<Rightarrow> set_t) \<Rightarrow> result_pat \<Rightarrow> set_t \<Rightarrow> ty \<Rightarrow> set_t" where
  "result_shape AF ScalarCount s P = Collection size_t"
| "result_shape AF CollectionOfT s P = Collection (element_t s)"
| "result_shape AF CollectionOfListOfT s P = Collection (vector (element_t s))"
| "result_shape AF CollectionOfListOfP s P = Collection (vector P)"
| "result_shape AF CollectionOfP s P = Collection P"
| "result_shape AF FirstPolicy s P = AF s"

definition row_matches :: "set_t \<Rightarrow> AggFunc \<Rightarrow> ty \<Rightarrow> shape_pat \<times> prop_pat \<times> AggFunc \<times> result_pat \<Rightarrow> bool" where
  "row_matches s f P r =
     (case r of (sp, pp, g, res) \<Rightarrow> shape_matches sp s \<and> g = f \<and> prop_matches pp P)"

text \<open>
  Resolution by a table: the result of the first row that matches, and a resolution
  failure when no row does or when the descriptor does not carry exactly one selector.
\<close>

definition resolve_by_table ::
  "(shape_pat \<times> prop_pat \<times> AggFunc \<times> result_pat) list \<Rightarrow> (set_t \<Rightarrow> set_t) \<Rightarrow> set_t \<Rightarrow> AggFunc \<Rightarrow>
   ty list \<Rightarrow> set_t option" where
  "resolve_by_table table AF s f sel =
     (case sel of
        [P] \<Rightarrow>
          (case find (row_matches s f P) table of
             Some (sp, pp, g, res) \<Rightarrow> Some (result_shape AF res s P)
           | None \<Rightarrow> None)
      | _ \<Rightarrow> None)"

subsection \<open>The type of the output context (lines 33--52 and 164--235)\<close>

text \<open>
  \<^verbatim>\<open>CommonBuilderT<CTX_T, GROUP_KEY>::result_t\<close> (lines 33--42): the only specialisation is
  for \<^verbatim>\<open>GroupKey<col_id, grape::EmptyType>\<close>; for a key with any other property type the
  template is declared and never defined.
\<close>

definition CommonBuilderT :: "decls \<Rightarrow> ctx_t \<Rightarrow> GroupKey \<Rightarrow> set_t option" where
  "CommonBuilderT D CTX_T GROUP_KEY =
     (if prop_t GROUP_KEY = EmptyType
      then Some (builder_result_t D (GetNode D CTX_T (col_id GROUP_KEY)))
      else None)"

text \<open>\<^verbatim>\<open>GroupKeyResT<CTX_T, GroupKey<col_id, T>>::result_t\<close> (lines 44--52).\<close>

definition GroupKeyResT :: "decls \<Rightarrow> ctx_t \<Rightarrow> GroupKey \<Rightarrow> set_t" where
  "GroupKeyResT D CTX_T GROUP_KEY =
     keyed_set_t D (GetNode D CTX_T (col_id GROUP_KEY)) (prop_t GROUP_KEY)"

text \<open>
  \<^verbatim>\<open>Rearrange<new_head_tag, base_tag, Nodes...>::context_t\<close> (lines 172--192): the last node
  is the head, the nodes before it are the previous columns.  With no node at all
  \<^verbatim>\<open>sizeof...(Nodes) - 1\<close> is no index of the tuple, and the template is ill-formed.
\<close>

fun Rearrange :: "int \<Rightarrow> int \<Rightarrow> set_t list \<Rightarrow> ctx_t option" where
  "Rearrange new_head_tag base_tag' [] = None"
| "Rearrange new_head_tag base_tag' [First] =
     Some \<lparr>head_t = First, cur_alias = new_head_tag, base_tag = base_tag', prev_t = []\<rparr>"
| "Rearrange new_head_tag base_tag' Nodes =
     Some \<lparr>head_t = last Nodes, cur_alias = new_head_tag, base_tag = base_tag',
           prev_t = butlast Nodes\<rparr>"

text \<open>
  \<^verbatim>\<open>GroupResT<CTX_T, std::tuple<GROUP_KEY...>, std::tuple<AGG_T...>>::result_t\<close>
  (lines 194--219).  The specialisation for one key is the more specialised one and is
  chosen for a one-element key tuple; every other key tuple takes the second one.  The
  tags are \<^verbatim>\<open>int\<close> constants; an overflow in a constant expression is refused by the
  compiler, so they are unbounded integers here.
\<close>

definition GroupResT :: "decls \<Rightarrow> ctx_t \<Rightarrow> GroupKey list \<Rightarrow> AggregateProp list \<Rightarrow> ctx_t option" where
  "GroupResT D CTX_T GROUP_KEYs AGG_Ts =
     (case GROUP_KEYs of
        [GROUP_KEY] \<Rightarrow>
          (let new_cur_alias = int (length AGG_Ts) in
           case those (map (GroupValueResT D CTX_T) AGG_Ts) of
             None \<Rightarrow> None
           | Some values \<Rightarrow> Rearrange new_cur_alias 0 (GroupKeyResT D CTX_T GROUP_KEY # values))
      | _ \<Rightarrow>
          (let new_cur_alias = int (length GROUP_KEYs) + int (length AGG_Ts) - 1 in
           case those (map (CommonBuilderT D CTX_T) GROUP_KEYs) of
             None \<Rightarrow> None
           | Some keys \<Rightarrow>
               (case those (map (GroupValueResT D CTX_T) AGG_Ts) of
                  None \<Rightarrow> None
                | Some values \<Rightarrow> Rearrange new_cur_alias 0 (keys @ values))))"

text \<open>\<^verbatim>\<open>FoldResT<CTX_T, std::tuple<AGG_T...>>::result_t\<close> (lines 221--235).\<close>

definition FoldResT :: "decls \<Rightarrow> ctx_t \<Rightarrow> AggregateProp list \<Rightarrow> ctx_t option" where
  "FoldResT D CTX_T AGG_Ts =
     (let base_tag' = max_tag_id D CTX_T + 1;
          new_head_tag = base_tag' + int (length AGG_Ts) - 1
      in case those (map (GroupValueResT D CTX_T) AGG_Ts) of
           None \<Rightarrow> None
         | Some values \<Rightarrow> Rearrange new_head_tag base_tag' values)"

text \<open>
  Modelled from the spec: the class \<^verbatim>\<open>Context\<close> of context.h is not part of this file.
  ``Each column has a stable integer tag (its position/alias)'': the previous columns
  of \<^verbatim>\<open>Context<HEAD_T, cur_alias, base_tag, PREV...>\<close> carry the tags \<open>base_tag\<close>,
  \<open>base_tag + 1\<close>, ... in their order, and the head carries \<open>cur_alias\<close>.
\<close>

definition columns_of :: "ctx_t \<Rightarrow> set_t list" where
  "columns_of c = prev_t c @ [head_t c]"

definition tags_of :: "ctx_t \<Rightarrow> int list" where
  "tags_of c = map (\<lambda>i. base_tag c + int i) [0..<length (prev_t c)] @ [cur_alias c]"

subsection \<open>Rows, builders and contexts at run time\<close>

text \<open>
  How a call ends when it does not return a context: \<^verbatim>\<open>LOG(FATAL)\<close> and a failed
  \<^verbatim>\<open>CHECK\<close> abort the process with their message; \<open>IllFormed\<close> is a call the compiler
  rejects (no specialisation, or an index outside a tuple); \<open>NoReturn\<close> is control
  reaching the end of a function that must return a value.
\<close>

datatype error = Fatal string | CheckFailed string | IllFormed string | NoReturn

text \<open>
  One position of the row iterator: \<^verbatim>\<open>GetAllIndexElement()\<close> and \<^verbatim>\<open>GetAllData()\<close> give one
  entry per column, \<^verbatim>\<open>GetTagOffset(tag)\<close> the offset of the row in the column \<open>tag\<close>.
  A data entry \<open>None\<close> is \<^verbatim>\<open>std::tuple<grape::EmptyType>\<close>, a column without payload.
\<close>

record ('e, 'd) row =
  GetAllIndexElement :: "'e list"
  GetAllData :: "'d option list"
  GetTagOffset :: "int \<Rightarrow> nat"

text \<open>
  \<^verbatim>\<open>gs::get_from_tuple<i>(t)\<close>.  The index is a template argument: a program whose index
  is outside the tuple is not compiled, so the rows of a running program are long enough.
\<close>

definition get_from_tuple :: "int \<Rightarrow> 'a list \<Rightarrow> 'a" where
  "get_from_tuple i t = t ! nat i"

text \<open>
  The input context at run time: its columns (\<^verbatim>\<open>GetPrevCols()\<close>, \<^verbatim>\<open>GetHead()\<close>), the rows
  \<^verbatim>\<open>for (auto iter : ctx)\<close> visits, in that order, and \<^verbatim>\<open>get_sub_task_start_tag()\<close>.
\<close>

record ('c, 'e, 'd) Context =
  GetPrevCols :: "'c list"
  GetHead :: 'c
  rows :: "('e, 'd) row list"
  get_sub_task_start_tag :: int

text \<open>
  A value builder is an object of a class of keyed.h that group\_by.h only calls:
  \<^verbatim>\<open>insert(ind, ele_tuple, data_tuple)\<close> and \<^verbatim>\<open>Build()\<close>.  It is its state together with its
  two methods.
\<close>

record ('b, 'e, 'd, 's) value_builder =
  state :: 'b
  insert_fn :: "'b \<Rightarrow> nat \<Rightarrow> 'e list \<Rightarrow> 'd option list \<Rightarrow> 'b"
  Build_fn :: "'b \<Rightarrow> 's"

definition vb_insert ::
  "('b, 'e, 'd, 's) value_builder \<Rightarrow> nat \<Rightarrow> 'e list \<Rightarrow> 'd option list \<Rightarrow> ('b, 'e, 'd, 's) value_builder" where
  "vb_insert b ind ele_tuple data_tuple = b\<lparr>state := insert_fn b (state b) ind ele_tuple data_tuple\<rparr>"

definition vb_Build :: "('b, 'e, 'd, 's) value_builder \<Rightarrow> 's" where
  "vb_Build b = Build_fn b (state b)"

text \<open>
  A column of the output: a key column (keyed set or plain set: its elements with their
  payload, in index order) or the finalized set of a value builder.
\<close>

datatype ('e, 'd, 's) column = KeyCol "('e \<times> 'd option) list" | ValCol 's

text \<open>
  The two constructors of the result context the operator uses:
  \<^verbatim>\<open>RES_T(head, prev_tuple, offset_vec)\<close> and \<^verbatim>\<open>RES_T(head, sub_task_start_tag)\<close>.
\<close>

datatype ('e, 'd, 's) out_context =
    Context3 "('e, 'd, 's) column" "('e, 'd, 's) column list" "nat list list"
  | Context2 "('e, 'd, 's) column" int

subsection \<open>Collaborators of group\_by.h\<close>

fun index_of :: "'a list \<Rightarrow> 'a \<Rightarrow> nat option" where
  "index_of [] k = None"
| "index_of (x # xs) k = (if x = k then Some 0 else map_option Suc (index_of xs k))"

text \<open>
  Modelled from the spec: the keyed set builder \<^verbatim>\<open>KeyedT<set_t, selector>::builder_t\<close> of
  keyed.h.  ``Insert it into the Keyed Set Builder, which returns the group index --- the
  index of this key value's first occurrence, or a newly minted next index if unseen.''
  The state is the list of distinct keys so far, each with the payload of its first
  occurrence; \<^verbatim>\<open>Build()\<close> returns it and \<^verbatim>\<open>Size()\<close> is its length.
\<close>

definition keyed_insert ::
  "('e \<times> 'd option) list \<Rightarrow> 'e \<Rightarrow> 'd option \<Rightarrow> nat \<times> ('e \<times> 'd option) list" where
  "keyed_insert builder ele data =
     (case index_of (map fst builder) ele of
        Some i \<Rightarrow> (i, builder)
      | None \<Rightarrow> (length builder, builder @ [(ele, data)]))"

text \<open>
  Modelled from the spec: the builder \<^verbatim>\<open>CreateBuilder()\<close> returns and
  \<^verbatim>\<open>insert_into_builder_v2_impl\<close>, ``non-deduplicating raw builders'': every insertion
  appends.
\<close>

definition insert_into_builder_v2_impl ::
  "('e \<times> 'd option) list \<Rightarrow> 'e \<Rightarrow> 'd option \<Rightarrow> ('e \<times> 'd option) list" where
  "insert_into_builder_v2_impl builder ele data = builder @ [(ele, data)]"

text \<open>
  Modelled from the spec: the trait \<^verbatim>\<open>group_key_on_property\<close>.  A key is property-based
  when its selector names ``a vertex property value rather than the column's native
  identity'', that is when its property type is not \<^verbatim>\<open>grape::EmptyType\<close>.
\<close>

definition group_key_on_property :: "GroupKey \<Rightarrow> bool" where
  "group_key_on_property k = (prop_t k \<noteq> EmptyType)"

subsection \<open>Helpers of the operator (lines 508--581)\<close>

text \<open>
  \<^verbatim>\<open>insert_to_value_set_builder<Is>\<close> (lines 509--519): builder \<open>Is\<close> takes the row with the
  group index, then the next one, while there is one.  The function reads
  \<^verbatim>\<open>std::get<0>\<close> of the tuple before it tests anything, so it is ill-formed on the empty
  tuple; the callers below refuse that case before the loop.
\<close>

fun insert_to_value_set_builder ::
  "('b, 'e, 'd, 's) value_builder list \<Rightarrow> 'e list \<Rightarrow> 'd option list \<Rightarrow> nat \<Rightarrow>
   ('b, 'e, 'd, 's) value_builder list" where
  "insert_to_value_set_builder [] ele_tuple data_tuple ind = []"
| "insert_to_value_set_builder (b # bs) ele_tuple data_tuple ind =
     vb_insert b ind ele_tuple data_tuple # insert_to_value_set_builder bs ele_tuple data_tuple ind"

text \<open>\<^verbatim>\<open>build_value_set_tuple\<close> (lines 521--525).\<close>

definition build_value_set_tuple :: "('b, 'e, 'd, 's) value_builder list \<Rightarrow> 's list" where
  "build_value_set_tuple builder_tuple = map vb_Build builder_tuple"

text \<open>
  \<^verbatim>\<open>create_keyed_value_set_builder\<close> (lines 536--556) takes a descriptor with one source
  tag; no overload takes any other.  \<open>create\<close> is \<^verbatim>\<open>KeyedAggT<...>::create_agg_builder\<close> of
  keyed.h, applied to the source column.  The test \<^verbatim>\<open>tag_id < sizeof...(SET_T)\<close> compares
  an \<^verbatim>\<open>int32_t\<close> with a \<^verbatim>\<open>size_t\<close>: a negative tag converts to a huge unsigned number and
  takes the head.
\<close>

definition create_keyed_value_set_builder ::
  "('c \<Rightarrow> AggregateProp \<Rightarrow> ('b, 'e, 'd, 's) value_builder) \<Rightarrow> 'c list \<Rightarrow> 'c \<Rightarrow> AggregateProp \<Rightarrow>
   ('b, 'e, 'd, 's) value_builder option" where
  "create_keyed_value_set_builder create prev head agg =
     (case tag_ids agg of
        [tag_id] \<Rightarrow>
          if 0 \<le> tag_id \<and> nat tag_id < length prev
          then Some (create (get_from_tuple tag_id prev) agg)
          else Some (create head agg)
      | _ \<Rightarrow> None)"

text \<open>\<^verbatim>\<open>create_keyed_value_set_builder_tuple\<close> (lines 527--534).\<close>

definition create_keyed_value_set_builder_tuple ::
  "('c \<Rightarrow> AggregateProp \<Rightarrow> ('b, 'e, 'd, 's) value_builder) \<Rightarrow> 'c list \<Rightarrow> 'c \<Rightarrow> AggregateProp list \<Rightarrow>
   ('b, 'e, 'd, 's) value_builder list option" where
  "create_keyed_value_set_builder_tuple create prev head agg_tuple =
     those (map (create_keyed_value_set_builder create prev head) agg_tuple)"

text \<open>
  \<^verbatim>\<open>insert_to_keyed_set_with_prop_getter\<close> (lines 559--563) and the two overloads of
  \<^verbatim>\<open>insert_to_keyed_set\<close> (lines 565--581), chosen by whether the payload is the empty
  tuple.  \<open>get_view\<close> is the property getter bound before the loop.
\<close>

definition insert_to_keyed_set_with_prop_getter ::
  "('e \<times> 'd option) list \<Rightarrow> ('e \<Rightarrow> 'e) \<Rightarrow> 'e \<Rightarrow> nat \<times> ('e \<times> 'd option) list" where
  "insert_to_keyed_set_with_prop_getter builder get_view ele =
     keyed_insert builder (get_view ele) None"

definition insert_to_keyed_set ::
  "('e \<times> 'd option) list \<Rightarrow> 'e \<Rightarrow> 'd option \<Rightarrow> nat \<times> ('e \<times> 'd option) list" where
  "insert_to_keyed_set builder ele data =
     (case data of
        None \<Rightarrow> keyed_insert builder ele None
      | Some d \<Rightarrow> keyed_insert builder ele (Some d))"

subsection \<open>Grouping by one key (lines 307--391)\<close>

text \<open>The loop of the property branch (lines 347--358): the key is the property value.\<close>

fun group_by_prop_loop ::
  "('e \<Rightarrow> 'e) \<Rightarrow> int \<Rightarrow> ('e, 'd) row list \<Rightarrow>
   ('e \<times> 'd option) list \<times> ('b, 'e, 'd, 's) value_builder list \<Rightarrow>
   ('e \<times> 'd option) list \<times> ('b, 'e, 'd, 's) value_builder list" where
  "group_by_prop_loop get_view keyed_tag_id [] acc = acc"
| "group_by_prop_loop get_view keyed_tag_id (iter # rest) (keyed_set_builder, value_set_builder_tuple) =
     (let ele_tuple = GetAllIndexElement iter;
          data_tuple = GetAllData iter;
          key_ele = get_from_tuple keyed_tag_id ele_tuple;
          (ind, keyed_set_builder') =
             insert_to_keyed_set_with_prop_getter keyed_set_builder get_view key_ele
      in group_by_prop_loop get_view keyed_tag_id rest
           (keyed_set_builder',
            insert_to_value_set_builder value_set_builder_tuple ele_tuple data_tuple ind))"

text \<open>
  The loop of the other branch (lines 360--369): the key is the index element.  The
  source reads it, and its payload, at \<^verbatim>\<open>key_alias_t::tag_id\<close>, the tag of the key's
  selector type; the caller passes that tag.
\<close>

fun group_by_loop ::
  "int \<Rightarrow> ('e, 'd) row list \<Rightarrow>
   ('e \<times> 'd option) list \<times> ('b, 'e, 'd, 's) value_builder list \<Rightarrow>
   ('e \<times> 'd option) list \<times> ('b, 'e, 'd, 's) value_builder list" where
  "group_by_loop keyed_tag_id [] acc = acc"
| "group_by_loop keyed_tag_id (iter # rest) (keyed_set_builder, value_set_builder_tuple) =
     (let ele_tuple = GetAllIndexElement iter;
          data_tuple = GetAllData iter;
          key_ele = get_from_tuple keyed_tag_id ele_tuple;
          data_ele = get_from_tuple keyed_tag_id data_tuple;
          (ind, keyed_set_builder') = insert_to_keyed_set keyed_set_builder key_ele data_ele
      in group_by_loop keyed_tag_id rest
           (keyed_set_builder',
            insert_to_value_set_builder value_set_builder_tuple ele_tuple data_tuple ind))"

text \<open>
  \<^verbatim>\<open>GroupByImpl\<close> with one key.  The call is compiled only if its return type
  \<^verbatim>\<open>RES_T = GroupResT<...>::result_t\<close> resolves, if every descriptor has a builder, and if
  there is at least one descriptor (see \<open>insert_to_value_set_builder\<close>).  Then it runs:
  the builders, the loop, \<^verbatim>\<open>Build()\<close>, the offset vector, and the context made of the
  last element of \<open>new_tuple\<close> as head and the elements before it.
\<close>

definition GroupByImpl ::
  "decls \<Rightarrow> ctx_t \<Rightarrow> ('c \<Rightarrow> AggregateProp \<Rightarrow> ('b, 'e, 'd, 's) value_builder) \<Rightarrow> ('e \<Rightarrow> 'e) \<Rightarrow>
   ('c, 'e, 'd) Context \<Rightarrow> GroupKey \<Rightarrow> AggregateProp list \<Rightarrow> error + ('e, 'd, 's) out_context" where
  "GroupByImpl D CTX_T create get_view ctx group_key agg_tuple =
     (case GroupResT D CTX_T [group_key] agg_tuple of
        None \<Rightarrow> Inl (IllFormed ''GroupResT::result_t'')
      | Some RES_T \<Rightarrow>
     (case create_keyed_value_set_builder_tuple create (GetPrevCols ctx) (GetHead ctx) agg_tuple of
        None \<Rightarrow> Inl (IllFormed ''create_keyed_value_set_builder'')
      | Some [] \<Rightarrow> Inl (IllFormed ''std::get<0> of an empty tuple'')
      | Some value_set_builder_tuple \<Rightarrow>
          (let grouped_value_num = length agg_tuple;
               keyed_tag_id = col_id group_key;
               key_alias_tag_id = selector_tag_id D group_key;
               keyed_set_builder = [];
               (keyed_set_builder', value_set_builder_tuple') =
                  (if group_key_on_property group_key
                   then group_by_prop_loop get_view keyed_tag_id (rows ctx)
                          (keyed_set_builder, value_set_builder_tuple)
                   else group_by_loop key_alias_tag_id (rows ctx)
                          (keyed_set_builder, value_set_builder_tuple));
               keyed_set_built = keyed_set_builder';
               value_set_built = build_value_set_tuple value_set_builder_tuple';
               offset_vec = make_offset_vector D grouped_value_num (length keyed_set_built);
               new_tuple = KeyCol keyed_set_built # map ValCol value_set_built
           in Inr (Context3 (new_tuple ! grouped_value_num)
                            (take grouped_value_num new_tuple)
                            offset_vec))))"

subsection \<open>Grouping by two keys (lines 393--506)\<close>

text \<open>
  One round of the loop (lines 454--478).  The state is the two key builders, the map
  \<open>key_tuple_set\<close>, the counter \<open>cur_ind\<close> and the value builders.  In the branch of a
  pair that is already in the map, \<^verbatim>\<open>auto ind = key_tuple_set[tmp_ele];\<close> declares a new
  variable in the inner block; the \<open>ind\<close> the value builders receive is the outer one,
  which still holds its initial \<open>0\<close>.
\<close>

definition two_key_step ::
  "int \<Rightarrow> int \<Rightarrow>
   ('e \<times> 'd option) list \<times> ('e \<times> 'd option) list \<times> ('e \<times> 'e \<rightharpoonup> nat) \<times> nat \<times>
     ('b, 'e, 'd, 's) value_builder list \<Rightarrow>
   ('e, 'd) row \<Rightarrow>
   ('e \<times> 'd option) list \<times> ('e \<times> 'd option) list \<times> ('e \<times> 'e \<rightharpoonup> nat) \<times> nat \<times>
     ('b, 'e, 'd, 's) value_builder list" where
  "two_key_step keyed_tag_id0 keyed_tag_id1 st iter =
     (case st of (keyed_set_builder0, keyed_set_builder1, key_tuple_set, cur_ind, value_set_builder_tuple) \<Rightarrow>
      let ele_tuple = GetAllIndexElement iter;
          data_tuple = GetAllData iter;
          key_ele0 = get_from_tuple keyed_tag_id0 ele_tuple;
          key_ele1 = get_from_tuple keyed_tag_id1 ele_tuple;
          tmp_ele = (key_ele0, key_ele1);
          data_ele0 = get_from_tuple keyed_tag_id0 data_tuple;
          data_ele1 = get_from_tuple keyed_tag_id1 data_tuple;
          ind = 0
      in if key_tuple_set tmp_ele \<noteq> None
         then (let inner_ind = the (key_tuple_set tmp_ele)
               in (keyed_set_builder0, keyed_set_builder1, key_tuple_set, cur_ind,
                   insert_to_value_set_builder value_set_builder_tuple ele_tuple data_tuple ind))
         else (let ind = cur_ind;
                   cur_ind = cur_ind + 1;
                   keyed_set_builder0 = insert_into_builder_v2_impl keyed_set_builder0 key_ele0 data_ele0;
                   keyed_set_builder1 = insert_into_builder_v2_impl keyed_set_builder1 key_ele1 data_ele1;
                   key_tuple_set = key_tuple_set(tmp_ele \<mapsto> ind)
               in (keyed_set_builder0, keyed_set_builder1, key_tuple_set, cur_ind,
                   insert_to_value_set_builder value_set_builder_tuple ele_tuple data_tuple ind)))"

fun two_key_loop ::
  "int \<Rightarrow> int \<Rightarrow> ('e, 'd) row list \<Rightarrow>
   ('e \<times> 'd option) list \<times> ('e \<times> 'd option) list \<times> ('e \<times> 'e \<rightharpoonup> nat) \<times> nat \<times>
     ('b, 'e, 'd, 's) value_builder list \<Rightarrow>
   ('e \<times> 'd option) list \<times> ('e \<times> 'd option) list \<times> ('e \<times> 'e \<rightharpoonup> nat) \<times> nat \<times>
     ('b, 'e, 'd, 's) value_builder list" where
  "two_key_loop keyed_tag_id0 keyed_tag_id1 [] st = st"
| "two_key_loop keyed_tag_id0 keyed_tag_id1 (iter # rest) st =
     two_key_loop keyed_tag_id0 keyed_tag_id1 rest (two_key_step keyed_tag_id0 keyed_tag_id1 st iter)"

text \<open>
  After the loop (lines 480--502): build both key sets, \<^verbatim>\<open>CHECK\<close> that their sizes agree,
  build the value sets, make the offset vector and the context.
\<close>

definition two_key_finish ::
  "decls \<Rightarrow> nat \<Rightarrow> ('e \<times> 'd option) list \<Rightarrow> ('e \<times> 'd option) list \<Rightarrow> ('b, 'e, 'd, 's) value_builder list \<Rightarrow>
   error + ('e, 'd, 's) out_context" where
  "two_key_finish D grouped_value_num keyed_set_builder0 keyed_set_builder1 value_set_builder_tuple =
     (let keyed_set_built0 = keyed_set_builder0;
          keyed_set_built1 = keyed_set_builder1
      in if length keyed_set_built0 \<noteq> length keyed_set_built1
         then Inl (CheckFailed ''size ueq'')
         else
           (let value_set_built = build_value_set_tuple value_set_builder_tuple;
                offset_vec = make_offset_vector D (grouped_value_num + 1) (length keyed_set_built0);
                new_tuple = KeyCol keyed_set_built0 # KeyCol keyed_set_built1 # map ValCol value_set_built
            in Inr (Context3 (new_tuple ! (grouped_value_num + 1))
                             (take (grouped_value_num + 1) new_tuple)
                             offset_vec)))"

text \<open>
  \<^verbatim>\<open>GroupByImpl\<close> with two keys.  As with one key the call is compiled only if \<^verbatim>\<open>RES_T\<close>
  resolves.  The \<^verbatim>\<open>else\<close> branch of the \<^verbatim>\<open>if constexpr\<close> holds
  \<^verbatim>\<open>static_assert("Not implemented")\<close>: its condition is a string literal, a non-null
  pointer, which converts to \<^verbatim>\<open>true\<close>; the assertion holds and the branch ends without
  a \<^verbatim>\<open>return\<close>.
\<close>

definition GroupByImpl2 ::
  "decls \<Rightarrow> ctx_t \<Rightarrow> ('c \<Rightarrow> AggregateProp \<Rightarrow> ('b, 'e, 'd, 's) value_builder) \<Rightarrow>
   ('c, 'e, 'd) Context \<Rightarrow> GroupKey \<Rightarrow> GroupKey \<Rightarrow> AggregateProp list \<Rightarrow>
   error + ('e, 'd, 's) out_context" where
  "GroupByImpl2 D CTX_T create ctx key_alias_opt0 key_alias_opt1 aggs =
     (case GroupResT D CTX_T [key_alias_opt0, key_alias_opt1] aggs of
        None \<Rightarrow> Inl (IllFormed ''GroupResT::result_t'')
      | Some RES_T \<Rightarrow>
     (case create_keyed_value_set_builder_tuple create (GetPrevCols ctx) (GetHead ctx) aggs of
        None \<Rightarrow> Inl (IllFormed ''create_keyed_value_set_builder'')
      | Some value_set_builder_tuple \<Rightarrow>
          if \<not> group_key_on_property key_alias_opt0 \<and> \<not> group_key_on_property key_alias_opt1
          then
            (case value_set_builder_tuple of
               [] \<Rightarrow> Inl (IllFormed ''std::get<0> of an empty tuple'')
             | _ \<Rightarrow>
               (let grouped_value_num = length aggs;
                    keyed_tag_id0 = col_id key_alias_opt0;
                    keyed_tag_id1 = col_id key_alias_opt1;
                    (keyed_set_builder0, keyed_set_builder1, key_tuple_set, cur_ind,
                       value_set_builder_tuple') =
                      two_key_loop keyed_tag_id0 keyed_tag_id1 (rows ctx)
                        ([], [], Map.empty, 0, value_set_builder_tuple)
                in two_key_finish D grouped_value_num keyed_set_builder0 keyed_set_builder1
                     value_set_builder_tuple'))
          else Inl NoReturn))"

subsection \<open>Folding without a key (lines 244--305)\<close>

text \<open>The loop (lines 274--283): the group index is the row's offset in the start tag's column.\<close>

fun fold_loop ::
  "int \<Rightarrow> ('e, 'd) row list \<Rightarrow> ('b, 'e, 'd, 's) value_builder list \<Rightarrow>
   ('b, 'e, 'd, 's) value_builder list" where
  "fold_loop start_tag [] value_set_builder_tuple = value_set_builder_tuple"
| "fold_loop start_tag (iter # rest) value_set_builder_tuple =
     (let ele_tuple = GetAllIndexElement iter;
          data_tuple = GetAllData iter;
          start_tag_ind = GetTagOffset iter start_tag
      in fold_loop start_tag rest
           (insert_to_value_set_builder value_set_builder_tuple ele_tuple data_tuple start_tag_ind))"

text \<open>
  \<^verbatim>\<open>GroupByWithoutKeyImpl\<close>.  Its option is \<^verbatim>\<open>std::tuple<FOLD_OPT>&&\<close>: one descriptor.
  \<open>INVALID_TAG\<close> is the constant of that name, declared outside this file.
\<close>

definition GroupByWithoutKeyImpl ::
  "int \<Rightarrow> decls \<Rightarrow> ctx_t \<Rightarrow> ('c \<Rightarrow> AggregateProp \<Rightarrow> ('b, 'e, 'd, 's) value_builder) \<Rightarrow>
   ('c, 'e, 'd) Context \<Rightarrow> AggregateProp \<Rightarrow> error + ('e, 'd, 's) out_context" where
  "GroupByWithoutKeyImpl INVALID_TAG D CTX_T create ctx FOLD_OPT =
     (let group_opt = [FOLD_OPT] in
      case FoldResT D CTX_T group_opt of
        None \<Rightarrow> Inl (IllFormed ''FoldResT::result_t'')
      | Some RES_T \<Rightarrow>
          if get_sub_task_start_tag ctx = INVALID_TAG
          then Inl (Fatal ''Not implemented now'')
          else
            (let start_tag = get_sub_task_start_tag ctx;
                 agg_tuple = group_opt
             in case create_keyed_value_set_builder_tuple create (GetPrevCols ctx) (GetHead ctx) agg_tuple of
                  None \<Rightarrow> Inl (IllFormed ''create_keyed_value_set_builder'')
                | Some value_set_builder_tuple \<Rightarrow>
                    (let value_set_builder_tuple' = fold_loop start_tag (rows ctx) value_set_builder_tuple;
                         value_set_built = build_value_set_tuple value_set_builder_tuple'
                     in Inr (Context2 (ValCol (value_set_built ! 0)) (get_sub_task_start_tag ctx)))))"

subsection \<open>Two value builders\<close>

text \<open>
  A builder that records its calls: the list of \<open>(ind, ele_tuple, data_tuple)\<close> it was
  given, in order.  It makes the group index each row is fed with visible in the result.
\<close>

definition recording_builder ::
  "((nat \<times> 'e list \<times> 'd option list) list, 'e, 'd, (nat \<times> 'e list \<times> 'd option list) list) value_builder" where
  "recording_builder =
     \<lparr>state = [],
      insert_fn = (\<lambda>calls ind ele_tuple data_tuple. calls @ [(ind, ele_tuple, data_tuple)]),
      Build_fn = (\<lambda>calls. calls)\<rparr>"

text \<open>
  Modelled from the spec: the builder of a COUNT aggregate (keyed.h).  ``COUNT aggregate
  for group g equals the number of input rows whose key resolves to g'': a vector of
  counters, grown with zeros up to the group index, whose entry \<open>ind\<close> is incremented.
\<close>

definition count_insert :: "nat list \<Rightarrow> nat \<Rightarrow> nat list" where
  "count_insert vec ind =
     (let vec' = vec @ replicate (Suc ind - length vec) 0 in vec'[ind := vec' ! ind + 1])"

definition count_builder :: "(nat list, 'e, 'd, nat list) value_builder" where
  "count_builder =
     \<lparr>state = [],
      insert_fn = (\<lambda>vec ind ele_tuple data_tuple. count_insert vec ind),
      Build_fn = (\<lambda>vec. vec)\<rparr>"

text \<open>A builder that keeps the group indices it was given, in order.\<close>

definition index_log_builder :: "(nat list, 'e, 'd, nat list) value_builder" where
  "index_log_builder =
     \<lparr>state = [],
      insert_fn = (\<lambda>vec ind ele_tuple data_tuple. vec @ [ind]),
      Build_fn = (\<lambda>vec. vec)\<rparr>"

subsection \<open>Concrete inputs\<close>

text \<open>
  A context of two columns, tags 0 and 1, both collections of integers without payload,
  and the declarations of the other headers read plainly: a tag below the number of
  previous columns names that column and any other tag the head; the highest tag is the
  head's; a builder builds a set of its own class; the selector of a key carries the
  key's column; an offset vector counts from 0 to the number of groups.
\<close>

definition example_decls :: decls where
  "example_decls =
     \<lparr>GetNode = (\<lambda>c i. if 0 \<le> i \<and> nat i < length (prev_t c) then prev_t c ! nat i else head_t c),
      max_tag_id = (\<lambda>c. cur_alias c),
      keyed_set_t = (\<lambda>s T. OtherSet ''KeyedCollection''),
      builder_result_t = (\<lambda>s. s),
      AggFirst = (\<lambda>s. s),
      selector_tag_id = (\<lambda>k. col_id k),
      make_offset_vector = (\<lambda>n m. replicate n [0..<Suc m])\<rparr>"

definition example_ctx_t :: ctx_t where
  "example_ctx_t =
     \<lparr>head_t = Collection (Prim ''int64_t''), cur_alias = 1, base_tag = 0,
      prev_t = [Collection (Prim ''int64_t'')]\<rparr>"

definition count_star :: AggregateProp where
  "count_star = \<lparr>agg_func = COUNT, selectors = [EmptyType], tag_ids = [0]\<rparr>"

definition to_list_star :: AggregateProp where
  "to_list_star = \<lparr>agg_func = TO_LIST, selectors = [EmptyType], tag_ids = [0]\<rparr>"

text \<open>The builders of the examples: a counter for COUNT, the log of indices otherwise.\<close>

definition example_create :: "unit \<Rightarrow> AggregateProp \<Rightarrow> (nat list, 'e, 'd, nat list) value_builder" where
  "example_create c a = (if agg_func a = COUNT then count_builder else index_log_builder)"

definition key_on :: "int \<Rightarrow> GroupKey" where
  "key_on c = \<lparr>col_id = c, prop_t = EmptyType\<rparr>"

definition key_on_prop :: "int \<Rightarrow> GroupKey" where
  "key_on_prop c = \<lparr>col_id = c, prop_t = Prim ''name''\<rparr>"

definition example_row :: "nat \<times> nat \<Rightarrow> (nat, unit) row" where
  "example_row p =
     \<lparr>GetAllIndexElement = [fst p, snd p], GetAllData = [None, None],
      GetTagOffset = (\<lambda>tag. fst p)\<rparr>"

definition example_ctx :: "(nat \<times> nat) list \<Rightarrow> int \<Rightarrow> (unit, nat, unit) Context" where
  "example_ctx ps start_tag =
     \<lparr>GetPrevCols = [()], GetHead = (), rows = map example_row ps,
      get_sub_task_start_tag = start_tag\<rparr>"

definition letter_ctx :: "string \<Rightarrow> (unit, char, unit) Context" where
  "letter_ctx cs =
     \<lparr>GetPrevCols = [()], GetHead = (),
      rows = map (\<lambda>c. \<lparr>GetAllIndexElement = [c, c], GetAllData = [None, None],
                           GetTagOffset = (\<lambda>tag. 0)\<rparr>) cs,
      get_sub_task_start_tag = 0\<rparr>"

subsection \<open>Notions of the specification\<close>

text \<open>
  The distinct values of a list in the order of their first occurrence: ``the first
  distinct key seen gets index 0, the second distinct key seen gets index 1, etc.''
\<close>

fun first_occurrences :: "'a list \<Rightarrow> 'a list" where
  "first_occurrences [] = []"
| "first_occurrences (x # xs) = x # filter (\<lambda>y. y \<noteq> x) (first_occurrences xs)"

text \<open>
  The group of a key: its position among the distinct keys in first-occurrence order.
\<close>

definition group_index :: "'a list \<Rightarrow> 'a \<Rightarrow> nat" where
  "group_index ks k = length (takeWhile (\<lambda>x. x \<noteq> k) (first_occurrences ks))"

text \<open>
  The key a row is grouped by with one key: the property value of the key column's
  element when the key is property-based, the element at the tag of the key's selector
  otherwise; and the pair of elements a row is grouped by with two keys.
\<close>

definition key_of_row :: "decls \<Rightarrow> ('e \<Rightarrow> 'e) \<Rightarrow> GroupKey \<Rightarrow> ('e, 'd) row \<Rightarrow> 'e" where
  "key_of_row D get_view group_key iter =
     (if group_key_on_property group_key
      then get_view (get_from_tuple (col_id group_key) (GetAllIndexElement iter))
      else get_from_tuple (selector_tag_id D group_key) (GetAllIndexElement iter))"

definition pair_of_row :: "GroupKey \<Rightarrow> GroupKey \<Rightarrow> ('e, 'd) row \<Rightarrow> 'e \<times> 'e" where
  "pair_of_row k0 k1 iter =
     (get_from_tuple (col_id k0) (GetAllIndexElement iter),
      get_from_tuple (col_id k1) (GetAllIndexElement iter))"

text \<open>
  A builder fed every row of a list, in order, each with the group index \<open>group_of\<close> gives
  it; and the value set a builder gives when it is fed every row of a context with the
  group index of the row's key and then built.
\<close>

definition feed_rows ::
  "(('e, 'd) row \<Rightarrow> nat) \<Rightarrow> ('e, 'd) row list \<Rightarrow> ('b, 'e, 'd, 's) value_builder \<Rightarrow>
   ('b, 'e, 'd, 's) value_builder" where
  "feed_rows group_of rs b =
     foldl (\<lambda>b iter. vb_insert b (group_of iter) (GetAllIndexElement iter) (GetAllData iter)) b rs"

definition grouped_value_set ::
  "decls \<Rightarrow> ('e \<Rightarrow> 'e) \<Rightarrow> GroupKey \<Rightarrow> ('c, 'e, 'd) Context \<Rightarrow> ('b, 'e, 'd, 's) value_builder \<Rightarrow> 's" where
  "grouped_value_set D get_view k ctx b =
     vb_Build (feed_rows
       (\<lambda>iter. group_index (map (key_of_row D get_view k) (rows ctx)) (key_of_row D get_view k iter))
       (rows ctx) b)"

text \<open>
  The two loops of the one-key operator differ in the key and payload they take from a
  row only; this is their common form, which the proofs work on.
\<close>

fun keyed_loop ::
  "(('e, 'd) row \<Rightarrow> 'e \<times> 'd option) \<Rightarrow> ('e, 'd) row list \<Rightarrow>
   ('e \<times> 'd option) list \<times> ('b, 'e, 'd, 's) value_builder list \<Rightarrow>
   ('e \<times> 'd option) list \<times> ('b, 'e, 'd, 's) value_builder list" where
  "keyed_loop key_data [] acc = acc"
| "keyed_loop key_data (iter # rest) (keyed_set_builder, value_set_builder_tuple) =
     (let (ind, keyed_set_builder') =
            keyed_insert keyed_set_builder (fst (key_data iter)) (snd (key_data iter))
      in keyed_loop key_data rest
           (keyed_set_builder',
            insert_to_value_set_builder value_set_builder_tuple
              (GetAllIndexElement iter) (GetAllData iter) ind))"

section \<open>Properties\<close>

subsection \<open>The resolver and its table\<close>

lemma GroupValueResTImpl_Nil: "GroupValueResTImpl AF s f [] = None"
  by (cases s; cases f) (simp_all add: GroupValueResTImpl_def)

lemma GroupValueResTImpl_two: "GroupValueResTImpl AF s f (P # Q # others) = None"
  by (cases s; cases f; cases P) (simp_all add: GroupValueResTImpl_def)

lemma GroupValueResTImpl_one:
  "GroupValueResTImpl AF s f [P] = resolve_by_table amended_table AF s f [P]"
  by (cases s; cases f; cases P)
     (simp_all add: GroupValueResTImpl_def resolve_by_table_def amended_table_def
        row_matches_def)

lemma GroupValueResTImpl_table:
  "GroupValueResTImpl AF s f sel = resolve_by_table amended_table AF s f sel"
proof (cases sel)
  case Nil
  then show ?thesis by (simp add: GroupValueResTImpl_Nil resolve_by_table_def)
next
  case (Cons P rest)
  show ?thesis
  proof (cases rest)
    case Nil
    with Cons show ?thesis by (simp add: GroupValueResTImpl_one)
  next
    case (Cons Q others)
    with \<open>sel = P # rest\<close> show ?thesis
      by (simp add: GroupValueResTImpl_two resolve_by_table_def)
  qed
qed

text \<open>
  C6, as amended: the resolver maps (source column shape, aggregate function, property
  kind) to the output shape exactly as the table does once the rows on a generic
  collection and on a two-label vertex set are read for the identity selector only and
  the rows on a vertex set for every selector, the identity included: it returns what
  the first matching row gives, and fails to resolve (a missing specialisation, refused
  when the program is compiled; the resolver never sees a row of data) for every other
  combination.  In particular COUNT with the identity selector gives a scalar count for
  every source shape, SUM over a collection of \<open>T\<close> with the identity selector gives a
  collection of \<open>T\<close>, and TO\_LIST and TO\_SET over a vertex set with the selector of
  \<open>P\<close> give a collection of lists of \<open>P\<close>.
\<close>

theorem resolver_is_the_amended_table:
  "GroupValueResTImpl AF s f sel = resolve_by_table amended_table AF s f sel
   \<and> GroupValueResTImpl AF s COUNT [EmptyType] = Some (Collection size_t)
   \<and> GroupValueResTImpl AF (Collection T) SUM_agg [EmptyType] = Some (Collection T)
   \<and> GroupValueResTImpl AF (RowVertexSet LabelT VID_T SET_Ts) TO_LIST [P] = Some (Collection (vector P))
   \<and> GroupValueResTImpl AF (RowVertexSet LabelT VID_T SET_Ts) TO_SET [P] = Some (Collection (vector P))"
proof -
  have "GroupValueResTImpl AF s COUNT [EmptyType] = Some (Collection size_t)"
    by (cases s) (simp_all add: GroupValueResTImpl_def)
  moreover have "GroupValueResTImpl AF (Collection T) SUM_agg [EmptyType] = Some (Collection T)"
    by (simp add: GroupValueResTImpl_def)
  moreover have "GroupValueResTImpl AF (RowVertexSet LabelT VID_T SET_Ts) TO_LIST [P] = Some (Collection (vector P))"
    by (cases P) (simp_all add: GroupValueResTImpl_def)
  moreover have "GroupValueResTImpl AF (RowVertexSet LabelT VID_T SET_Ts) TO_SET [P] = Some (Collection (vector P))"
    by (cases P) (simp_all add: GroupValueResTImpl_def)
  ultimately show ?thesis
    using GroupValueResTImpl_table [of AF s f sel] by simp
qed

text \<open>
  The claim as it was stated fails in both directions against the table in the spec's
  words.  TO\_LIST over a vertex set with the identity selector is in no row of that table
  (its vertex-set rows ask for a property), and the code resolves it.  SUM over a generic
  collection with a property selector is in a row of that table (the row names no
  property), and the code does not resolve it.
\<close>

theorem resolver_differs_from_spec_table:
  "resolve_by_table spec_table (\<lambda>s. s)
      (RowVertexSet (Prim ''label_t'') (Prim ''vid_t'') []) TO_LIST [EmptyType] = None
   \<and> GroupValueResTImpl (\<lambda>s. s)
      (RowVertexSet (Prim ''label_t'') (Prim ''vid_t'') []) TO_LIST [EmptyType]
      = Some (Collection (vector EmptyType))
   \<and> resolve_by_table spec_table (\<lambda>s. s)
      (Collection (Prim ''int64_t'')) SUM_agg [Prim ''name'']
      = Some (Collection (Prim ''int64_t''))
   \<and> GroupValueResTImpl (\<lambda>s. s)
      (Collection (Prim ''int64_t'')) SUM_agg [Prim ''name''] = None"
  by (simp add: GroupValueResTImpl_def resolve_by_table_def spec_table_def row_matches_def)

subsection \<open>Two keys, one of them a property\<close>

lemma GroupResT_two_keys_property:
  assumes "group_key_on_property k0 \<or> group_key_on_property k1"
  shows "GroupResT D CTX_T [k0, k1] aggs = None"
  using assms
  by (auto simp: GroupResT_def CommonBuilderT_def group_key_on_property_def)

text \<open>
  C3: two-key grouping in which at least one key is property-based is rejected when the
  program is compiled, and so never produces an output context.  What rejects it is the
  return type of the call: \<^verbatim>\<open>CommonBuilderT\<close> has no specialisation for a key with a
  property, so \<^verbatim>\<open>GroupResT<...>::result_t\<close> does not resolve.
\<close>

theorem two_keys_on_property_rejected:
  "group_key_on_property k0 \<or> group_key_on_property k1 \<Longrightarrow>
   GroupByImpl2 D CTX_T create ctx k0 k1 aggs = Inl (IllFormed ''GroupResT::result_t'')"
  by (simp add: GroupByImpl2_def GroupResT_two_keys_property)

theorem two_keys_on_property_rejected_witness:
  "(group_key_on_property (key_on 0) \<or> group_key_on_property (key_on_prop 1))
   \<and> GroupByImpl2 example_decls example_ctx_t (\<lambda>c a. count_builder)
        (example_ctx [(1, 10), (1, 10), (2, 20)] 0) (key_on 0) (key_on_prop 1) [count_star]
      = Inl (IllFormed ''GroupResT::result_t'')"
proof -
  have h: "group_key_on_property (key_on 0) \<or> group_key_on_property (key_on_prop 1)"
    by (simp add: group_key_on_property_def key_on_prop_def)
  show ?thesis
    using h two_keys_on_property_rejected [OF h] by simp
qed

subsection \<open>Resolution and builders\<close>

lemma those_map_length: "those (map f xs) = Some ys \<Longrightarrow> length ys = length xs"
  by (induction xs arbitrary: ys) (auto split: option.splits)

lemma those_map_nth:
  "those (map f xs) = Some ys \<Longrightarrow> i < length xs \<Longrightarrow> f (xs ! i) = Some (ys ! i)"
proof (induction xs arbitrary: ys i)
  case Nil
  then show ?case by simp
next
  case (Cons x xs)
  then show ?case by (cases i) (auto split: option.splits)
qed

lemma GroupValueResT_single_tag:
  "GroupValueResT D c agg = Some r \<Longrightarrow> \<exists>t. tag_ids agg = [t]"
  by (auto simp: GroupValueResT_def split: list.splits)

lemma create_builder_resolved:
  "GroupValueResT D c agg = Some r \<Longrightarrow>
   \<exists>b. create_keyed_value_set_builder create prev head agg = Some b"
  by (auto simp: GroupValueResT_def create_keyed_value_set_builder_def split: list.splits)

lemma create_tuple_resolved:
  "those (map (GroupValueResT D c) aggs) = Some vs \<Longrightarrow>
   \<exists>bs. create_keyed_value_set_builder_tuple create prev head aggs = Some bs
        \<and> length bs = length aggs"
proof (induction aggs arbitrary: vs)
  case Nil
  then show ?case by (simp add: create_keyed_value_set_builder_tuple_def)
next
  case (Cons a aggs)
  from Cons.prems obtain r rs where r: "GroupValueResT D c a = Some r"
    and rs: "those (map (GroupValueResT D c) aggs) = Some rs"
    by (auto split: option.splits)
  from create_builder_resolved [OF r, where create=create and prev=prev and head=head] obtain b
    where b: "create_keyed_value_set_builder create prev head a = Some b" by blast
  from Cons.IH [OF rs] obtain bs
    where bs: "create_keyed_value_set_builder_tuple create prev head aggs = Some bs"
      "length bs = length aggs" by blast
  from b bs show ?case by (simp add: create_keyed_value_set_builder_tuple_def)
qed

lemma FoldResT_values:
  "FoldResT D c aggs = Some r \<Longrightarrow> \<exists>vs. those (map (GroupValueResT D c) aggs) = Some vs"
  by (auto simp: FoldResT_def Let_def split: option.splits)

lemma fold_loop_single:
  "fold_loop start_tag rs [b] =
     [foldl (\<lambda>b iter. vb_insert b (GetTagOffset iter start_tag) (GetAllIndexElement iter) (GetAllData iter)) b rs]"
  by (induction rs arbitrary: b) (simp_all add: Let_def)

lemma fold_result:
  assumes res: "FoldResT D CTX_T [FOLD_OPT] = Some RES_T"
    and tag: "get_sub_task_start_tag ctx \<noteq> INVALID_TAG"
  shows "\<exists>b. create_keyed_value_set_builder create (GetPrevCols ctx) (GetHead ctx) FOLD_OPT = Some b
     \<and> GroupByWithoutKeyImpl INVALID_TAG D CTX_T create ctx FOLD_OPT =
       Inr (Context2
         (ValCol (vb_Build (foldl (\<lambda>b iter. vb_insert b (GetTagOffset iter (get_sub_task_start_tag ctx))
                                       (GetAllIndexElement iter) (GetAllData iter)) b (rows ctx))))
         (get_sub_task_start_tag ctx))"
proof -
  from FoldResT_values [OF res] obtain vs
    where "those (map (GroupValueResT D CTX_T) [FOLD_OPT]) = Some vs" by blast
  then obtain r where "GroupValueResT D CTX_T FOLD_OPT = Some r"
    by (auto split: option.splits)
  from create_builder_resolved [OF this, where create=create and prev="GetPrevCols ctx" and head="GetHead ctx"] obtain b
    where b: "create_keyed_value_set_builder create (GetPrevCols ctx) (GetHead ctx) FOLD_OPT = Some b"
    by blast
  then have "create_keyed_value_set_builder_tuple create (GetPrevCols ctx) (GetHead ctx) [FOLD_OPT] = Some [b]"
    by (simp add: create_keyed_value_set_builder_tuple_def)
  with res tag b show ?thesis
    by (simp add: GroupByWithoutKeyImpl_def Let_def fold_loop_single build_value_set_tuple_def)
qed

subsection \<open>Folding without a key\<close>

text \<open>
  C4: when the sub-task start tag of the input context is \<open>INVALID_TAG\<close>, the key-less
  fold ends in \<^verbatim>\<open>LOG(FATAL)\<close>; the test stands before the builders are created and before
  the loop, so the outcome is the same whatever the rows are and no output is made.  The
  fold returns a context exactly when the tag is valid.  (The hypothesis says that the
  call is a program at all: its return type resolves.)
\<close>

theorem fold_needs_sub_task_start_tag:
  assumes "FoldResT D CTX_T [FOLD_OPT] = Some RES_T"
  shows "(get_sub_task_start_tag ctx = INVALID_TAG \<longrightarrow>
            GroupByWithoutKeyImpl INVALID_TAG D CTX_T create ctx FOLD_OPT = Inl (Fatal ''Not implemented now''))
       \<and> ((\<exists>out. GroupByWithoutKeyImpl INVALID_TAG D CTX_T create ctx FOLD_OPT = Inr out)
            = (get_sub_task_start_tag ctx \<noteq> INVALID_TAG))"
proof (cases "get_sub_task_start_tag ctx = INVALID_TAG")
  case True
  with assms show ?thesis by (simp add: GroupByWithoutKeyImpl_def)
next
  case False
  from fold_result [OF assms False, of create] False show ?thesis by auto
qed

theorem fold_needs_sub_task_start_tag_witness:
  "FoldResT example_decls example_ctx_t [count_star]
     = Some \<lparr>head_t = Collection size_t, cur_alias = 2, base_tag = 2, prev_t = []\<rparr>
   \<and> GroupByWithoutKeyImpl (- 2) example_decls example_ctx_t (\<lambda>c a. count_builder)
        (example_ctx [(1, 10), (1, 10), (2, 20)] (- 2)) count_star
      = Inl (Fatal ''Not implemented now'')"
proof -
  have h: "FoldResT example_decls example_ctx_t [count_star]
     = Some \<lparr>head_t = Collection size_t, cur_alias = 2, base_tag = 2, prev_t = []\<rparr>"
    by (simp add: FoldResT_def GroupValueResT_def GroupValueResTImpl_def example_decls_def
        example_ctx_t_def count_star_def)
  show ?thesis
    using h fold_needs_sub_task_start_tag [OF h, of "example_ctx [(1, 10), (1, 10), (2, 20)] (- 2)" "- 2" "\<lambda>c a. count_builder"]
    by (simp add: example_ctx_def)
qed


lemma recording_foldl:
  "foldl (\<lambda>b iter. vb_insert b (f iter) (g iter) (h iter))
     \<lparr>state = s, insert_fn = (\<lambda>calls ind e d. calls @ [(ind, e, d)]), Build_fn = B\<rparr> rs
   = \<lparr>state = s @ map (\<lambda>iter. (f iter, g iter, h iter)) rs,
      insert_fn = (\<lambda>calls ind e d. calls @ [(ind, e, d)]), Build_fn = B\<rparr>"
  by (induction rs arbitrary: s) (simp_all add: vb_insert_def)

lemma recording_foldl_Build:
  "vb_Build (foldl (\<lambda>b iter. vb_insert b (f iter) (g iter) (h iter)) recording_builder rs)
     = map (\<lambda>iter. (f iter, g iter, h iter)) rs"
  unfolding recording_builder_def recording_foldl by (simp add: vb_Build_def)

lemma FoldResT_single:
  "FoldResT D c [agg] = Some r \<Longrightarrow>
   prev_t r = [] \<and> cur_alias r = max_tag_id D c + 1 \<and> base_tag r = max_tag_id D c + 1"
  by (auto simp: FoldResT_def Let_def split: option.splits)

text \<open>
  C10: the key-less fold takes one aggregate descriptor (its result type has a head and
  no previous column); it feeds the builder of that descriptor every row, in order, with
  the row's tag offset in the column of the sub-task start tag as group index; and it
  returns the finalized value set in a context built from the head and the start tag
  alone, without an offset vector.  The second conjunct says so for any builder, the
  third shows the indices with the builder that records its calls.
\<close>

theorem fold_one_descriptor_by_tag_offset:
  assumes res: "FoldResT D CTX_T [FOLD_OPT] = Some RES_T"
    and tag: "get_sub_task_start_tag ctx \<noteq> INVALID_TAG"
  shows "prev_t RES_T = []
    \<and> (\<exists>b. create_keyed_value_set_builder create (GetPrevCols ctx) (GetHead ctx) FOLD_OPT = Some b
        \<and> GroupByWithoutKeyImpl INVALID_TAG D CTX_T create ctx FOLD_OPT =
          Inr (Context2
            (ValCol (vb_Build (foldl (\<lambda>b iter. vb_insert b (GetTagOffset iter (get_sub_task_start_tag ctx))
                                          (GetAllIndexElement iter) (GetAllData iter)) b (rows ctx))))
            (get_sub_task_start_tag ctx)))
    \<and> GroupByWithoutKeyImpl INVALID_TAG D CTX_T (\<lambda>c a. recording_builder) ctx FOLD_OPT =
        Inr (Context2
          (ValCol (map (\<lambda>iter. (GetTagOffset iter (get_sub_task_start_tag ctx),
                                 GetAllIndexElement iter, GetAllData iter)) (rows ctx)))
          (get_sub_task_start_tag ctx))"
proof -
  have one: "prev_t RES_T = []" using FoldResT_single [OF res] by simp
  note gen = fold_result [OF res tag]
  from gen [of "\<lambda>c a. recording_builder"]
  have rec: "GroupByWithoutKeyImpl INVALID_TAG D CTX_T (\<lambda>c a. recording_builder) ctx FOLD_OPT =
        Inr (Context2
          (ValCol (map (\<lambda>iter. (GetTagOffset iter (get_sub_task_start_tag ctx),
                                 GetAllIndexElement iter, GetAllData iter)) (rows ctx)))
          (get_sub_task_start_tag ctx))"
    by (auto simp: create_keyed_value_set_builder_def recording_foldl_Build split: list.splits if_splits)
  from one gen [of create] rec show ?thesis by blast
qed

theorem fold_one_descriptor_by_tag_offset_witness:
  "FoldResT example_decls example_ctx_t [count_star]
     = Some \<lparr>head_t = Collection size_t, cur_alias = 2, base_tag = 2, prev_t = []\<rparr>
   \<and> get_sub_task_start_tag (example_ctx [(1, 10), (1, 10), (2, 20)] 0) \<noteq> - 2
   \<and> GroupByWithoutKeyImpl (- 2) example_decls example_ctx_t (\<lambda>c a. recording_builder)
        (example_ctx [(1, 10), (1, 10), (2, 20)] 0) count_star
      = Inr (Context2 (ValCol [(1, [1, 10], [None, None]), (1, [1, 10], [None, None]),
                               (2, [2, 20], [None, None])]) 0)"
proof -
  have h: "FoldResT example_decls example_ctx_t [count_star]
     = Some \<lparr>head_t = Collection size_t, cur_alias = 2, base_tag = 2, prev_t = []\<rparr>"
    by (simp add: FoldResT_def GroupValueResT_def GroupValueResTImpl_def example_decls_def
        example_ctx_t_def count_star_def)
  have t: "get_sub_task_start_tag (example_ctx [(1, 10), (1, 10), (2, 20)] 0) \<noteq> - 2"
    by (simp add: example_ctx_def)
  show ?thesis
    using h t fold_one_descriptor_by_tag_offset [OF h t, of "\<lambda>c a. recording_builder"]
    by (simp add: example_ctx_def example_row_def)
qed

subsection \<open>Tags of the output context\<close>

lemma Rearrange_columns_tags:
  "Rearrange h b nodes = Some r \<Longrightarrow>
   columns_of r = nodes \<and> tags_of r = map (\<lambda>i. b + int i) [0..<length nodes - 1] @ [h]"
  by (cases "(h, b, nodes)" rule: Rearrange.cases) (auto simp: columns_of_def tags_of_def)

lemma Rearrange_None: "Rearrange h b nodes = Some r \<Longrightarrow> nodes \<noteq> []"
  by (cases nodes) simp_all

lemma GroupResT_one_key:
  assumes "GroupResT D CTX_T [k] aggs = Some r"
  shows "\<exists>vals. those (map (GroupValueResT D CTX_T) aggs) = Some vals
           \<and> Rearrange (int (length aggs)) 0 (GroupKeyResT D CTX_T k # vals) = Some r"
  using assms by (auto simp: GroupResT_def Let_def split: option.splits)

lemma GroupResT_two_keys:
  assumes "GroupResT D CTX_T [k0, k1] aggs = Some r"
  shows "\<exists>vals. those (map (GroupValueResT D CTX_T) aggs) = Some vals
           \<and> prop_t k0 = EmptyType \<and> prop_t k1 = EmptyType
           \<and> Rearrange (int (length aggs) + 1) 0
                (builder_result_t D (GetNode D CTX_T (col_id k0)) #
                 builder_result_t D (GetNode D CTX_T (col_id k1)) # vals) = Some r"
proof -
  have p: "prop_t k0 = EmptyType \<and> prop_t k1 = EmptyType"
  proof (rule ccontr)
    assume "\<not> (prop_t k0 = EmptyType \<and> prop_t k1 = EmptyType)"
    then have "group_key_on_property k0 \<or> group_key_on_property k1"
      by (simp add: group_key_on_property_def)
    from GroupResT_two_keys_property [OF this] assms show False by simp
  qed
  then have keys: "those (map (CommonBuilderT D CTX_T) [k0, k1]) =
      Some [builder_result_t D (GetNode D CTX_T (col_id k0)),
            builder_result_t D (GetNode D CTX_T (col_id k1))]"
    by (simp add: CommonBuilderT_def)
  have unfold: "GroupResT D CTX_T [k0, k1] aggs =
      (case those (map (GroupValueResT D CTX_T) aggs) of
         None \<Rightarrow> None
       | Some vals \<Rightarrow> Rearrange (1 + int (length aggs)) 0
           ([builder_result_t D (GetNode D CTX_T (col_id k0)),
             builder_result_t D (GetNode D CTX_T (col_id k1))] @ vals))"
    using keys by (simp add: GroupResT_def Let_def add.commute)
  show ?thesis
  proof (cases "those (map (GroupValueResT D CTX_T) aggs)")
    case None
    with unfold assms show ?thesis by simp
  next
    case (Some vals)
    with unfold assms p show ?thesis by (simp add: add.commute)
  qed
qed

lemma FoldResT_unfold:
  assumes "FoldResT D CTX_T aggs = Some r"
  shows "\<exists>vals. those (map (GroupValueResT D CTX_T) aggs) = Some vals
           \<and> Rearrange (max_tag_id D CTX_T + 1 + int (length aggs) - 1) (max_tag_id D CTX_T + 1) vals = Some r"
  using assms by (auto simp: FoldResT_def Let_def split: option.splits)

lemma tags_from_zero: "map (\<lambda>i. 0 + int i) [0..<n] @ [int n] = map int [0..<Suc n]"
  by simp

text \<open>
  C7: grouping by one key or by two keys gives a context whose columns are the key
  column(s) followed by the aggregate columns, tagged 0, 1, 2, ... in that order; the
  key-less fold gives the aggregate columns tagged from \<open>max_tag_id + 1\<close> on, so every
  new tag lies above every tag of the input context.
\<close>

theorem output_tags:
  "(GroupResT D CTX_T [k] aggs = Some r1 \<longrightarrow>
      tags_of r1 = map int [0..<Suc (length aggs)]
      \<and> (\<exists>vals. those (map (GroupValueResT D CTX_T) aggs) = Some vals
            \<and> columns_of r1 = GroupKeyResT D CTX_T k # vals))
   \<and> (GroupResT D CTX_T [k0, k1] aggs = Some r2 \<longrightarrow>
      tags_of r2 = map int [0..<Suc (Suc (length aggs))]
      \<and> (\<exists>vals. those (map (GroupValueResT D CTX_T) aggs) = Some vals
            \<and> columns_of r2 = builder_result_t D (GetNode D CTX_T (col_id k0)) #
                               builder_result_t D (GetNode D CTX_T (col_id k1)) # vals))
   \<and> (FoldResT D CTX_T aggs = Some r3 \<longrightarrow>
      tags_of r3 = map (\<lambda>i. max_tag_id D CTX_T + 1 + int i) [0..<length aggs]
      \<and> those (map (GroupValueResT D CTX_T) aggs) = Some (columns_of r3)
      \<and> list_all (\<lambda>t. max_tag_id D CTX_T < t) (tags_of r3))"
proof (intro conjI impI)
  assume a: "GroupResT D CTX_T [k] aggs = Some r1"
  from GroupResT_one_key [OF a] obtain vals
    where v: "those (map (GroupValueResT D CTX_T) aggs) = Some vals"
      and r: "Rearrange (int (length aggs)) 0 (GroupKeyResT D CTX_T k # vals) = Some r1"
    by blast
  have len: "length vals = length aggs" using those_map_length [OF v] .
  from Rearrange_columns_tags [OF r] len
  show "tags_of r1 = map int [0..<Suc (length aggs)]" by simp
  from Rearrange_columns_tags [OF r] v
  show "\<exists>vals. those (map (GroupValueResT D CTX_T) aggs) = Some vals
            \<and> columns_of r1 = GroupKeyResT D CTX_T k # vals" by blast
next
  assume a: "GroupResT D CTX_T [k0, k1] aggs = Some r2"
  from GroupResT_two_keys [OF a] obtain vals
    where v: "those (map (GroupValueResT D CTX_T) aggs) = Some vals"
      and r: "Rearrange (int (length aggs) + 1) 0
                (builder_result_t D (GetNode D CTX_T (col_id k0)) #
                 builder_result_t D (GetNode D CTX_T (col_id k1)) # vals) = Some r2"
    by blast
  have len: "length vals = length aggs" using those_map_length [OF v] .
  from Rearrange_columns_tags [OF r] len
  show "tags_of r2 = map int [0..<Suc (Suc (length aggs))]" by simp
  from Rearrange_columns_tags [OF r] v
  show "\<exists>vals. those (map (GroupValueResT D CTX_T) aggs) = Some vals
            \<and> columns_of r2 = builder_result_t D (GetNode D CTX_T (col_id k0)) #
                               builder_result_t D (GetNode D CTX_T (col_id k1)) # vals" by blast
next
  assume a: "FoldResT D CTX_T aggs = Some r3"
  from FoldResT_unfold [OF a] obtain vals
    where v: "those (map (GroupValueResT D CTX_T) aggs) = Some vals"
      and r: "Rearrange (max_tag_id D CTX_T + 1 + int (length aggs) - 1) (max_tag_id D CTX_T + 1) vals = Some r3"
    by blast
  have len: "length vals = length aggs" using those_map_length [OF v] .
  have ne: "vals \<noteq> []" using Rearrange_None [OF r] .
  with len obtain n where n: "length aggs = Suc n" by (cases aggs) auto
  from Rearrange_columns_tags [OF r] len n
  show t: "tags_of r3 = map (\<lambda>i. max_tag_id D CTX_T + 1 + int i) [0..<length aggs]" by simp
  from Rearrange_columns_tags [OF r] v
  show "those (map (GroupValueResT D CTX_T) aggs) = Some (columns_of r3)" by simp
  show "list_all (\<lambda>t. max_tag_id D CTX_T < t) (tags_of r3)"
    unfolding t by (simp add: list_all_iff)
qed

theorem output_tags_witness:
  "GroupResT example_decls example_ctx_t [key_on 0] [count_star, count_star]
     = Some \<lparr>head_t = Collection size_t, cur_alias = 2, base_tag = 0,
             prev_t = [OtherSet ''KeyedCollection'', Collection size_t]\<rparr>
   \<and> tags_of \<lparr>head_t = Collection size_t, cur_alias = 2, base_tag = 0,
             prev_t = [OtherSet ''KeyedCollection'', Collection size_t]\<rparr> = [0, 1, 2]
   \<and> GroupResT example_decls example_ctx_t [key_on 0, key_on 1] [count_star]
     = Some \<lparr>head_t = Collection size_t, cur_alias = 2, base_tag = 0,
             prev_t = [Collection (Prim ''int64_t''), Collection (Prim ''int64_t'')]\<rparr>
   \<and> tags_of \<lparr>head_t = Collection size_t, cur_alias = 2, base_tag = 0,
             prev_t = [Collection (Prim ''int64_t''), Collection (Prim ''int64_t'')]\<rparr> = [0, 1, 2]
   \<and> FoldResT example_decls example_ctx_t [count_star]
     = Some \<lparr>head_t = Collection size_t, cur_alias = 2, base_tag = 2, prev_t = []\<rparr>
   \<and> max_tag_id example_decls example_ctx_t = 1
   \<and> tags_of \<lparr>head_t = Collection size_t, cur_alias = 2, base_tag = 2, prev_t = []\<rparr> = [2]"
proof -
  have h1: "GroupResT example_decls example_ctx_t [key_on 0] [count_star, count_star]
     = Some \<lparr>head_t = Collection size_t, cur_alias = 2, base_tag = 0,
             prev_t = [OtherSet ''KeyedCollection'', Collection size_t]\<rparr>"
    by (simp add: GroupResT_def GroupKeyResT_def GroupValueResT_def GroupValueResTImpl_def
        example_decls_def example_ctx_t_def count_star_def key_on_def)
  have h2: "GroupResT example_decls example_ctx_t [key_on 0, key_on 1] [count_star]
     = Some \<lparr>head_t = Collection size_t, cur_alias = 2, base_tag = 0,
             prev_t = [Collection (Prim ''int64_t''), Collection (Prim ''int64_t'')]\<rparr>"
    by (simp add: GroupResT_def CommonBuilderT_def GroupValueResT_def GroupValueResTImpl_def
        example_decls_def example_ctx_t_def count_star_def key_on_def)
  have h3: "FoldResT example_decls example_ctx_t [count_star]
     = Some \<lparr>head_t = Collection size_t, cur_alias = 2, base_tag = 2, prev_t = []\<rparr>"
    by (simp add: FoldResT_def GroupValueResT_def GroupValueResTImpl_def example_decls_def
        example_ctx_t_def count_star_def)
  have m: "max_tag_id example_decls example_ctx_t = 1"
    by (simp add: example_decls_def example_ctx_t_def)
  from output_tags [of example_decls example_ctx_t "key_on 0" "[count_star, count_star]" _ "key_on 0" "key_on 1" _ _]
  have t1: "tags_of \<lparr>head_t = Collection size_t, cur_alias = 2, base_tag = 0,
             prev_t = [OtherSet ''KeyedCollection'', Collection size_t]\<rparr> = [0, 1, 2]"
    using h1 by (simp add: upt_rec)
  from output_tags [of example_decls example_ctx_t "key_on 0" "[count_star]" _ "key_on 0" "key_on 1" _ _]
  have t2: "tags_of \<lparr>head_t = Collection size_t, cur_alias = 2, base_tag = 0,
             prev_t = [Collection (Prim ''int64_t''), Collection (Prim ''int64_t'')]\<rparr> = [0, 1, 2]"
    and t3: "tags_of \<lparr>head_t = Collection size_t, cur_alias = 2, base_tag = 2, prev_t = []\<rparr> = [2]"
    using h2 h3 m by (simp_all add: upt_rec)
  from h1 h2 h3 m t1 t2 t3 show ?thesis by simp
qed

subsection \<open>The loop of the one-key operator\<close>

lemma insert_to_value_set_builder_length:
  "length (insert_to_value_set_builder bs e d ind) = length bs"
  by (induction bs) simp_all

lemma insert_to_keyed_set_eq: "insert_to_keyed_set b ele data = keyed_insert b ele data"
  by (cases data) (simp_all add: insert_to_keyed_set_def)

lemma group_by_loop_keyed:
  "group_by_loop c rs st =
     keyed_loop (\<lambda>iter. (get_from_tuple c (GetAllIndexElement iter),
                          get_from_tuple c (GetAllData iter))) rs st"
proof (induction rs arbitrary: st)
  case Nil
  show ?case by simp
next
  case (Cons iter rest)
  obtain kb vbt where st: "st = (kb, vbt)" by (cases st)
  show ?case unfolding st
    by (simp add: Let_def insert_to_keyed_set_eq Cons.IH split: prod.splits)
qed

lemma group_by_prop_loop_keyed:
  "group_by_prop_loop get_view c rs st =
     keyed_loop (\<lambda>iter. (get_view (get_from_tuple c (GetAllIndexElement iter)), None)) rs st"
proof (induction rs arbitrary: st)
  case Nil
  show ?case by simp
next
  case (Cons iter rest)
  obtain kb vbt where st: "st = (kb, vbt)" by (cases st)
  show ?case unfolding st
    by (simp add: Let_def insert_to_keyed_set_with_prop_getter_def Cons.IH split: prod.splits)
qed

lemma keyed_loop_length:
  "length (snd (keyed_loop kd rs st)) = length (snd st)"
proof (induction rs arbitrary: st)
  case Nil
  show ?case by simp
next
  case (Cons iter rest)
  obtain kb vbt where st: "st = (kb, vbt)" by (cases st)
  show ?case unfolding st
    by (simp add: Let_def Cons.IH insert_to_value_set_builder_length split: prod.splits)
qed

text \<open>The key and payload the one-key operator takes from a row.\<close>

lemma one_key_loop:
  "(if group_key_on_property k
    then group_by_prop_loop get_view (col_id k) rs st
    else group_by_loop (selector_tag_id D k) rs st)
   = keyed_loop (\<lambda>iter. (key_of_row D get_view k iter,
        if group_key_on_property k then None
        else get_from_tuple (selector_tag_id D k) (GetAllData iter))) rs st"
  by (simp add: group_by_loop_keyed group_by_prop_loop_keyed key_of_row_def)

lemma GroupByImpl_run:
  assumes res: "GroupResT D CTX_T [k] aggs = Some RES_T"
    and bs: "create_keyed_value_set_builder_tuple create (GetPrevCols ctx) (GetHead ctx) aggs = Some bs"
    and ne: "bs \<noteq> []"
    and loop: "keyed_loop (\<lambda>iter. (key_of_row D get_view k iter,
        if group_key_on_property k then None
        else get_from_tuple (selector_tag_id D k) (GetAllData iter))) (rows ctx) ([], bs) = (kb, vbt)"
  shows "GroupByImpl D CTX_T create get_view ctx k aggs =
     Inr (Context3 ((KeyCol kb # map ValCol (build_value_set_tuple vbt)) ! length aggs)
                   (take (length aggs) (KeyCol kb # map ValCol (build_value_set_tuple vbt)))
                   (make_offset_vector D (length aggs) (length kb)))"
proof -
  from ne obtain b bs' where c: "bs = b # bs'" by (cases bs) auto
  have L: "(if group_key_on_property k
            then group_by_prop_loop get_view (col_id k) (rows ctx) ([], b # bs')
            else group_by_loop (selector_tag_id D k) (rows ctx) ([], b # bs')) = (kb, vbt)"
    using loop unfolding c by (simp only: one_key_loop)
  show ?thesis
  proof (cases "group_key_on_property k")
    case True
    with L have "group_by_prop_loop get_view (col_id k) (rows ctx) ([], b # bs') = (kb, vbt)"
      by simp
    with res bs True show ?thesis
      by (simp add: GroupByImpl_def c Let_def)
  next
    case False
    with L have "group_by_loop (selector_tag_id D k) (rows ctx) ([], b # bs') = (kb, vbt)"
      by simp
    with res bs False show ?thesis
      by (simp add: GroupByImpl_def c Let_def)
  qed
qed

lemma head_and_prev:
  assumes "length built = Suc n"
  shows "(x # map ValCol built) ! Suc n = ValCol (last built)"
    and "take (Suc n) (x # map ValCol built) = x # map ValCol (butlast built)"
proof -
  from assms have ne: "built \<noteq> []" by auto
  from assms ne show "(x # map ValCol built) ! Suc n = ValCol (last built)"
    by (simp add: last_conv_nth)
  from assms show "take (Suc n) (x # map ValCol built) = x # map ValCol (butlast built)"
    by (simp add: butlast_conv_take take_map)
qed

lemma GroupByImpl_result:
  assumes res: "GroupResT D CTX_T [k] aggs = Some RES_T" and ne: "aggs \<noteq> []"
  shows "\<exists>keyed built vbt bs.
      create_keyed_value_set_builder_tuple create (GetPrevCols ctx) (GetHead ctx) aggs = Some bs
    \<and> keyed_loop (\<lambda>iter. (key_of_row D get_view k iter,
        if group_key_on_property k then None
        else get_from_tuple (selector_tag_id D k) (GetAllData iter))) (rows ctx) ([], bs) = (keyed, vbt)
    \<and> built = build_value_set_tuple vbt
    \<and> length built = length aggs
    \<and> GroupByImpl D CTX_T create get_view ctx k aggs =
        Inr (Context3 (ValCol (last built)) (KeyCol keyed # map ValCol (butlast built))
                      (make_offset_vector D (length aggs) (length keyed)))"
proof -
  from GroupResT_one_key [OF res] obtain vals
    where v: "those (map (GroupValueResT D CTX_T) aggs) = Some vals" by blast
  from create_tuple_resolved [OF v, where create=create and prev="GetPrevCols ctx" and head="GetHead ctx"]
  obtain bs where bs: "create_keyed_value_set_builder_tuple create (GetPrevCols ctx) (GetHead ctx) aggs = Some bs"
    and len: "length bs = length aggs" by blast
  from len ne have bne: "bs \<noteq> []" by auto
  obtain keyed vbt where loop: "keyed_loop (\<lambda>iter. (key_of_row D get_view k iter,
        if group_key_on_property k then None
        else get_from_tuple (selector_tag_id D k) (GetAllData iter))) (rows ctx) ([], bs) = (keyed, vbt)"
    by (cases "keyed_loop (\<lambda>iter. (key_of_row D get_view k iter,
        if group_key_on_property k then None
        else get_from_tuple (selector_tag_id D k) (GetAllData iter))) (rows ctx) ([], bs)") auto
  have "length vbt = length bs"
    using keyed_loop_length [of _ "rows ctx" "([], bs)"] loop
    by (metis snd_conv)
  with len have lb: "length (build_value_set_tuple vbt) = length aggs"
    by (simp add: build_value_set_tuple_def)
  from ne obtain n where n: "length aggs = Suc n" by (cases aggs) auto
  from lb n have lbn: "length (build_value_set_tuple vbt) = Suc n" by simp
  have "GroupByImpl D CTX_T create get_view ctx k aggs =
        Inr (Context3 (ValCol (last (build_value_set_tuple vbt)))
              (KeyCol keyed # map ValCol (butlast (build_value_set_tuple vbt)))
              (make_offset_vector D (length aggs) (length keyed)))"
    unfolding GroupByImpl_run [OF res bs bne loop] n head_and_prev [OF lbn] ..
  with bs loop lb show ?thesis by blast
qed

subsection \<open>Keys in the order of their first occurrence\<close>

lemma index_of_None: "(index_of xs k = None) = (k \<notin> set xs)"
  by (induction xs) auto

lemma index_of_Some: "index_of xs k = Some i \<Longrightarrow> i < length xs \<and> xs ! i = k"
proof (induction xs arbitrary: i)
  case Nil
  then show ?case by simp
next
  case (Cons x xs)
  then show ?case by (cases "x = k") auto
qed

lemma set_first_occurrences: "set (first_occurrences xs) = set xs"
  by (induction xs) auto

lemma distinct_first_occurrences: "distinct (first_occurrences xs)"
  by (induction xs) (auto simp: set_first_occurrences)

lemma first_occurrences_snoc:
  "first_occurrences (xs @ [x]) =
     (if x \<in> set xs then first_occurrences xs else first_occurrences xs @ [x])"
  by (induction xs) (auto simp: set_first_occurrences)

lemma keyed_loop_append:
  "keyed_loop kd (xs @ ys) st = keyed_loop kd ys (keyed_loop kd xs st)"
proof (induction xs arbitrary: st)
  case Nil
  show ?case by simp
next
  case (Cons iter rest)
  obtain kb vbt where st: "st = (kb, vbt)" by (cases st)
  show ?case unfolding st by (simp add: Let_def Cons.IH split: prod.splits)
qed

lemma keyed_loop_snoc:
  assumes "keyed_loop kd rs st = (kb, vbt)"
  shows "keyed_loop kd (rs @ [iter]) st =
     (snd (keyed_insert kb (fst (kd iter)) (snd (kd iter))),
      insert_to_value_set_builder vbt (GetAllIndexElement iter) (GetAllData iter)
        (fst (keyed_insert kb (fst (kd iter)) (snd (kd iter)))))"
  using assms by (simp add: keyed_loop_append Let_def split: prod.splits)

lemma keyed_insert_old:
  assumes "map fst kb = first_occurrences ks" and "k \<in> set ks"
  shows "\<exists>i. keyed_insert kb k d = (i, kb) \<and> i < length kb \<and> map fst kb ! i = k"
proof -
  from assms have "k \<in> set (map fst kb)" by (simp add: set_first_occurrences)
  then obtain i where i: "index_of (map fst kb) k = Some i"
    using index_of_None [of "map fst kb" k] by (cases "index_of (map fst kb) k") auto
  from index_of_Some [OF i] i show ?thesis by (simp add: keyed_insert_def)
qed

lemma keyed_insert_new:
  assumes "map fst kb = first_occurrences ks" and "k \<notin> set ks"
  shows "keyed_insert kb k d = (length kb, kb @ [(k, d)])"
proof -
  from assms have "k \<notin> set (map fst kb)" by (simp add: set_first_occurrences)
  then have "index_of (map fst kb) k = None" by (simp add: index_of_None)
  then show ?thesis by (simp add: keyed_insert_def)
qed

lemma keyed_loop_keys:
  "map fst (fst (keyed_loop kd rs ([], bs))) = first_occurrences (map (\<lambda>iter. fst (kd iter)) rs)"
proof (induction rs rule: rev_induct)
  case Nil
  show ?case by simp
next
  case (snoc iter rs)
  obtain kb vbt where l: "keyed_loop kd rs ([], bs) = (kb, vbt)"
    by (cases "keyed_loop kd rs ([], bs)") auto
  with snoc.IH have kb: "map fst kb = first_occurrences (map (\<lambda>iter. fst (kd iter)) rs)" by simp
  show ?case
  proof (cases "fst (kd iter) \<in> set (map (\<lambda>iter. fst (kd iter)) rs)")
    case True
    from keyed_insert_old [OF kb True, of "snd (kd iter)"] kb True show ?thesis
      by (auto simp: keyed_loop_snoc [OF l] first_occurrences_snoc)
  next
    case False
    from keyed_insert_new [OF kb False, of "snd (kd iter)"] kb False show ?thesis
      by (auto simp: keyed_loop_snoc [OF l] first_occurrences_snoc)
  qed
qed

lemma length_first_occurrences: "length (first_occurrences xs) = card (set xs)"
  using distinct_card [OF distinct_first_occurrences, of xs] by (simp add: set_first_occurrences)

subsection \<open>The loop of the two-key operator\<close>

lemma two_key_step_inv:
  assumes "length kb0 = cur" and "length kb1 = cur" and "dom m = S" and "finite S"
    and "card S = cur"
    and "two_key_step c0 c1 (kb0, kb1, m, cur, vbt) iter = (kb0', kb1', m', cur', vbt')"
  shows "length kb0' = cur' \<and> length kb1' = cur'
    \<and> dom m' = insert (get_from_tuple c0 (GetAllIndexElement iter),
                         get_from_tuple c1 (GetAllIndexElement iter)) S
    \<and> card (dom m') = cur' \<and> length vbt' = length vbt"
proof (cases "m (get_from_tuple c0 (GetAllIndexElement iter),
                 get_from_tuple c1 (GetAllIndexElement iter))")
  case None
  then have notin: "(get_from_tuple c0 (GetAllIndexElement iter),
              get_from_tuple c1 (GetAllIndexElement iter)) \<notin> S"
    using assms(3) by auto
  from assms(6) None
  have r: "kb0' = insert_into_builder_v2_impl kb0 (get_from_tuple c0 (GetAllIndexElement iter))
                    (get_from_tuple c0 (GetAllData iter))"
    "kb1' = insert_into_builder_v2_impl kb1 (get_from_tuple c1 (GetAllIndexElement iter))
                    (get_from_tuple c1 (GetAllData iter))"
    "m' = m((get_from_tuple c0 (GetAllIndexElement iter),
             get_from_tuple c1 (GetAllIndexElement iter)) \<mapsto> cur)"
    "cur' = cur + 1"
    "vbt' = insert_to_value_set_builder vbt (GetAllIndexElement iter) (GetAllData iter) cur"
    by (simp_all add: two_key_step_def Let_def)
  have d: "dom m' = insert (get_from_tuple c0 (GetAllIndexElement iter),
                            get_from_tuple c1 (GetAllIndexElement iter)) S"
    unfolding r using assms(3) by simp
  have "card (dom m') = Suc (card S)"
    unfolding d using assms(4) notin by simp
  with d r assms(1,2,5) show ?thesis
    by (simp add: insert_into_builder_v2_impl_def insert_to_value_set_builder_length)
next
  case (Some i)
  then have isin: "(get_from_tuple c0 (GetAllIndexElement iter),
              get_from_tuple c1 (GetAllIndexElement iter)) \<in> S"
    using assms(3) by auto
  from assms(6) Some
  have r: "kb0' = kb0" "kb1' = kb1" "m' = m" "cur' = cur"
    "vbt' = insert_to_value_set_builder vbt (GetAllIndexElement iter) (GetAllData iter) 0"
    by (simp_all add: two_key_step_def Let_def)
  from isin have "insert (get_from_tuple c0 (GetAllIndexElement iter),
                     get_from_tuple c1 (GetAllIndexElement iter)) S = S" by auto
  with r assms(1-5) show ?thesis
    by (simp add: insert_to_value_set_builder_length)
qed

lemma two_key_loop_inv:
  assumes "length kb0 = cur" and "length kb1 = cur" and "dom m = S" and "finite S"
    and "card S = cur"
    and "two_key_loop c0 c1 rs (kb0, kb1, m, cur, vbt) = (kb0', kb1', m', cur', vbt')"
  shows "length kb0' = cur' \<and> length kb1' = cur'
    \<and> dom m' = S \<union> set (map (\<lambda>iter. (get_from_tuple c0 (GetAllIndexElement iter),
                                         get_from_tuple c1 (GetAllIndexElement iter))) rs)
    \<and> card (dom m') = cur' \<and> length vbt' = length vbt"
  using assms
proof (induction rs arbitrary: kb0 kb1 m cur vbt S)
  case Nil
  then show ?case by simp
next
  case (Cons iter rest)
  obtain a0 a1 ma ca va
    where st: "two_key_step c0 c1 (kb0, kb1, m, cur, vbt) iter = (a0, a1, ma, ca, va)"
    by (cases "two_key_step c0 c1 (kb0, kb1, m, cur, vbt) iter") auto
  from two_key_step_inv [OF Cons.prems(1-5) st]
  have s: "length a0 = ca" "length a1 = ca"
    "dom ma = insert (get_from_tuple c0 (GetAllIndexElement iter),
                      get_from_tuple c1 (GetAllIndexElement iter)) S"
    "card (dom ma) = ca" "length va = length vbt" by blast+
  from Cons.prems(4) have fin: "finite (insert (get_from_tuple c0 (GetAllIndexElement iter),
                      get_from_tuple c1 (GetAllIndexElement iter)) S)" by simp
  from Cons.prems(6) st
  have l: "two_key_loop c0 c1 rest (a0, a1, ma, ca, va) = (kb0', kb1', m', cur', vbt')" by simp
  have c: "card (insert (get_from_tuple c0 (GetAllIndexElement iter),
                      get_from_tuple c1 (GetAllIndexElement iter)) S) = ca"
    using s(4) unfolding s(3) .
  from Cons.IH [OF s(1) s(2) s(3) fin c l] s(5) show ?case by auto
qed

lemma two_key_loop_sizes:
  assumes "two_key_loop (col_id k0) (col_id k1) rs ([], [], Map.empty, 0, bs) = (kb0, kb1, m, cur, vbt)"
  shows "length kb0 = card (set (map (pair_of_row k0 k1) rs))"
    and "length kb1 = card (set (map (pair_of_row k0 k1) rs))"
    and "length vbt = length bs"
proof -
  have p: "pair_of_row k0 k1 = (\<lambda>iter. (get_from_tuple (col_id k0) (GetAllIndexElement iter),
                                         get_from_tuple (col_id k1) (GetAllIndexElement iter)))"
    by (rule ext) (simp add: pair_of_row_def)
  have inv: "length kb0 = cur \<and> length kb1 = cur
    \<and> dom m = {} \<union> set (map (\<lambda>iter. (get_from_tuple (col_id k0) (GetAllIndexElement iter),
                                         get_from_tuple (col_id k1) (GetAllIndexElement iter))) rs)
    \<and> card (dom m) = cur \<and> length vbt = length bs"
    by (rule two_key_loop_inv [OF _ _ _ _ _ assms]) simp_all
  then have "dom m = {} \<union> set (map (\<lambda>iter. (get_from_tuple (col_id k0) (GetAllIndexElement iter),
                                         get_from_tuple (col_id k1) (GetAllIndexElement iter))) rs)"
    by blast
  then have d: "dom m = set (map (pair_of_row k0 k1) rs)" unfolding p by simp
  from inv have c: "card (dom m) = cur" by blast
  have e: "card (set (map (pair_of_row k0 k1) rs)) = cur" using c unfolding d .
  from inv have l: "length kb0 = cur" "length kb1 = cur" "length vbt = length bs" by blast+
  from l e show "length kb0 = card (set (map (pair_of_row k0 k1) rs))"
    and "length kb1 = card (set (map (pair_of_row k0 k1) rs))"
    and "length vbt = length bs" by simp_all
qed

lemma two_key_finish_ok:
  assumes sz: "length kb0 = g" "length kb1 = g"
    and lbn: "length (build_value_set_tuple vbt) = Suc n"
  shows "two_key_finish D (Suc n) kb0 kb1 vbt =
      Inr (Context3 (ValCol (last (build_value_set_tuple vbt)))
             (KeyCol kb0 # KeyCol kb1 # map ValCol (butlast (build_value_set_tuple vbt)))
             (make_offset_vector D (Suc n + 1) (length kb0)))"
proof -
  note hp = head_and_prev [OF lbn, of "KeyCol kb1"]
  have a: "(KeyCol kb0 # KeyCol kb1 # map ValCol (build_value_set_tuple vbt)) ! (Suc n + 1)
           = ValCol (last (build_value_set_tuple vbt))"
    using hp(1) by simp
  have b: "take (Suc n + 1) (KeyCol kb0 # KeyCol kb1 # map ValCol (build_value_set_tuple vbt))
           = KeyCol kb0 # KeyCol kb1 # map ValCol (butlast (build_value_set_tuple vbt))"
    using hp(2) by simp
  show ?thesis
    unfolding two_key_finish_def Let_def a b using sz by simp
qed

lemma GroupByImpl2_run:
  assumes res: "GroupResT D CTX_T [k0, k1] aggs = Some RES_T"
    and bs: "create_keyed_value_set_builder_tuple create (GetPrevCols ctx) (GetHead ctx) aggs = Some (b # bs')"
    and loop: "two_key_loop (col_id k0) (col_id k1) (rows ctx) ([], [], Map.empty, 0, b # bs') = (kb0, kb1, m, cur, vbt)"
  shows "GroupByImpl2 D CTX_T create ctx k0 k1 aggs = two_key_finish D (length aggs) kb0 kb1 vbt"
proof -
  from GroupResT_two_keys [OF res]
  have p: "\<not> group_key_on_property k0 \<and> \<not> group_key_on_property k1"
    by (auto simp: group_key_on_property_def)
  show ?thesis
    unfolding GroupByImpl2_def
    by (simp only: res bs loop p option.case list.case Let_def prod.case if_True simp_thms)
qed

lemma GroupByImpl2_result:
  assumes res: "GroupResT D CTX_T [k0, k1] aggs = Some RES_T" and ne: "aggs \<noteq> []"
  shows "\<exists>keyed0 keyed1 built.
      length keyed0 = card (set (map (pair_of_row k0 k1) (rows ctx)))
    \<and> length keyed1 = card (set (map (pair_of_row k0 k1) (rows ctx)))
    \<and> length built = length aggs
    \<and> GroupByImpl2 D CTX_T create ctx k0 k1 aggs =
        Inr (Context3 (ValCol (last built))
                      (KeyCol keyed0 # KeyCol keyed1 # map ValCol (butlast built))
                      (make_offset_vector D (length aggs + 1) (length keyed0)))"
proof -
  from GroupResT_two_keys [OF res] obtain vals
    where v: "those (map (GroupValueResT D CTX_T) aggs) = Some vals" by blast
  from create_tuple_resolved [OF v, where create=create and prev="GetPrevCols ctx" and head="GetHead ctx"]
  obtain bs where bs: "create_keyed_value_set_builder_tuple create (GetPrevCols ctx) (GetHead ctx) aggs = Some bs"
    and len: "length bs = length aggs" by blast
  from len ne obtain b bs' where c: "bs = b # bs'" by (cases bs) auto
  obtain kb0 kb1 m cur vbt
    where loop: "two_key_loop (col_id k0) (col_id k1) (rows ctx) ([], [], Map.empty, 0, b # bs') = (kb0, kb1, m, cur, vbt)"
    by (cases "two_key_loop (col_id k0) (col_id k1) (rows ctx) ([], [], Map.empty, 0, b # bs')") auto
  note sz = two_key_loop_sizes [OF loop]
  from sz(3) len c have lb: "length (build_value_set_tuple vbt) = length aggs"
    by (simp add: build_value_set_tuple_def)
  from ne obtain n where n: "length aggs = Suc n" by (cases aggs) auto
  from lb n have lbn: "length (build_value_set_tuple vbt) = Suc n" by simp
  have run: "GroupByImpl2 D CTX_T create ctx k0 k1 aggs = two_key_finish D (Suc n) kb0 kb1 vbt"
    using GroupByImpl2_run [OF res bs [unfolded c] loop] n by simp
  have "GroupByImpl2 D CTX_T create ctx k0 k1 aggs =
      Inr (Context3 (ValCol (last (build_value_set_tuple vbt)))
             (KeyCol kb0 # KeyCol kb1 # map ValCol (butlast (build_value_set_tuple vbt)))
             (make_offset_vector D (length aggs + 1) (length kb0)))"
    unfolding run n by (rule two_key_finish_ok [OF sz(1) sz(2) lbn])
  with sz lb show ?thesis by blast
qed

subsection \<open>Runs on concrete inputs\<close>

lemmas resolve_defs = GroupResT_def GroupKeyResT_def CommonBuilderT_def GroupValueResT_def
  GroupValueResTImpl_def example_decls_def example_ctx_t_def count_star_def key_on_def key_on_prop_def

lemmas run_defs = create_keyed_value_set_builder_tuple_def
  create_keyed_value_set_builder_def group_key_on_property_def get_from_tuple_def
  insert_to_keyed_set_def keyed_insert_def two_key_step_def two_key_finish_def
  insert_into_builder_v2_impl_def build_value_set_tuple_def vb_Build_def vb_insert_def
  Let_def example_decls_def example_ctx_def example_row_def letter_ctx_def
  recording_builder_def count_builder_def count_insert_def

lemma example_two_keys_resolve:
  "GroupResT example_decls example_ctx_t [key_on 0, key_on 1] [count_star]
     = Some \<lparr>head_t = Collection size_t, cur_alias = 2, base_tag = 0,
             prev_t = [Collection (Prim ''int64_t''), Collection (Prim ''int64_t'')]\<rparr>"
  by (simp add: resolve_defs)

lemma example_one_key_resolve:
  "GroupResT example_decls example_ctx_t [key_on 0] [count_star]
     = Some \<lparr>head_t = Collection size_t, cur_alias = 1, base_tag = 0,
             prev_t = [OtherSet ''KeyedCollection'']\<rparr>"
  by (simp add: resolve_defs)

lemma example_letters_count:
  "GroupByImpl example_decls example_ctx_t (\<lambda>c a. count_builder) (\<lambda>e. e)
     (letter_ctx ''AABCB'') (key_on 0) [count_star]
   = Inr (Context3 (ValCol [2, 2, 1])
       [KeyCol [(CHR ''A'', None), (CHR ''B'', None), (CHR ''C'', None)]]
       [[0, 1, 2, 3]])"
  unfolding GroupByImpl_def example_one_key_resolve
  by (simp add: run_defs count_star_def key_on_def)

subsection \<open>Two keys: the index of a repeated pair, the sizes of the key sets\<close>

text \<open>
  C1 (what the code does): in two-key grouping a row whose pair has occurred before is
  fed to the value builders with index 0, not with the index recorded for the pair.  On
  the pairs (1, 10), (2, 20), (2, 20) the third row repeats the second pair, recorded at
  index 1, and the builders receive the indices 0, 1, 0.
\<close>

theorem two_key_repeated_pair_gets_index_zero:
  "GroupByImpl2 example_decls example_ctx_t (\<lambda>c a. recording_builder)
     (example_ctx [(1, 10), (2, 20), (2, 20)] 0) (key_on 0) (key_on 1) [count_star]
   = Inr (Context3
       (ValCol [(0, [1, 10], [None, None]), (1, [2, 20], [None, None]),
                (0, [2, 20], [None, None])])
       [KeyCol [(1, None), (2, None)], KeyCol [(10, None), (20, None)]]
       [[0, 1, 2], [0, 1, 2]])"
  unfolding GroupByImpl2_def example_two_keys_resolve
  by (simp add: run_defs count_star_def key_on_def)

text \<open>
  C2: in two-key grouping both key sets have, once built, the same size, which is the
  number of distinct (key0, key1) pairs of the input; and the step after the loop ends
  in a failed \<^verbatim>\<open>CHECK\<close>, not in a context, whenever it is given two key builders of
  different sizes.  (The hypotheses of the second part say that the call is a program:
  its return type resolves and there is an aggregate.)
\<close>

theorem two_key_sizes_equal_distinct_pairs:
  "(length keyed_set_builder0 \<noteq> length keyed_set_builder1 \<longrightarrow>
      two_key_finish D n keyed_set_builder0 keyed_set_builder1 vbt = Inl (CheckFailed ''size ueq''))
   \<and> (GroupResT D CTX_T [k0, k1] aggs = Some RES_T \<longrightarrow> aggs \<noteq> [] \<longrightarrow>
      (\<exists>keyed0 keyed1 head rest offs.
          GroupByImpl2 D CTX_T create ctx k0 k1 aggs =
            Inr (Context3 head (KeyCol keyed0 # KeyCol keyed1 # rest) offs)
        \<and> length keyed0 = card (set (map (pair_of_row k0 k1) (rows ctx)))
        \<and> length keyed1 = card (set (map (pair_of_row k0 k1) (rows ctx)))))"
proof (intro conjI impI)
  assume "length keyed_set_builder0 \<noteq> length keyed_set_builder1"
  then show "two_key_finish D n keyed_set_builder0 keyed_set_builder1 vbt = Inl (CheckFailed ''size ueq'')"
    by (simp add: two_key_finish_def)
next
  assume res: "GroupResT D CTX_T [k0, k1] aggs = Some RES_T" and ne: "aggs \<noteq> []"
  from GroupByImpl2_result [OF res ne, of ctx create]
  show "\<exists>keyed0 keyed1 head rest offs.
          GroupByImpl2 D CTX_T create ctx k0 k1 aggs =
            Inr (Context3 head (KeyCol keyed0 # KeyCol keyed1 # rest) offs)
        \<and> length keyed0 = card (set (map (pair_of_row k0 k1) (rows ctx)))
        \<and> length keyed1 = card (set (map (pair_of_row k0 k1) (rows ctx)))"
    by blast
qed

theorem two_key_sizes_equal_distinct_pairs_witness:
  "length [(1 :: nat, None :: unit option)] \<noteq> length ([] :: (nat \<times> unit option) list)
   \<and> two_key_finish example_decls 1 [(1 :: nat, None :: unit option)] [] [count_builder]
       = Inl (CheckFailed ''size ueq'')
   \<and> GroupResT example_decls example_ctx_t [key_on 0, key_on 1] [count_star]
     = Some \<lparr>head_t = Collection size_t, cur_alias = 2, base_tag = 0,
             prev_t = [Collection (Prim ''int64_t''), Collection (Prim ''int64_t'')]\<rparr>
   \<and> [count_star] \<noteq> []
   \<and> card (set (map (pair_of_row (key_on 0) (key_on 1))
                  (rows (example_ctx [(1, 10), (1, 10), (2, 20)] 0)))) = 2
   \<and> (\<exists>keyed0 keyed1 head rest offs.
          GroupByImpl2 example_decls example_ctx_t (\<lambda>c a. count_builder)
            (example_ctx [(1, 10), (1, 10), (2, 20)] 0) (key_on 0) (key_on 1) [count_star] =
            Inr (Context3 head (KeyCol keyed0 # KeyCol keyed1 # rest) offs)
        \<and> length keyed0 = 2 \<and> length keyed1 = 2)"
proof -
  have ne: "[count_star] \<noteq> []" by simp
  have d: "length [(1 :: nat, None :: unit option)] \<noteq> length ([] :: (nat \<times> unit option) list)"
    by simp
  have c: "card (set (map (pair_of_row (key_on 0) (key_on 1))
                  (rows (example_ctx [(1, 10), (1, 10), (2, 20)] 0)))) = 2"
    by (simp add: pair_of_row_def key_on_def example_ctx_def example_row_def get_from_tuple_def)
  note t = two_key_sizes_equal_distinct_pairs
    [where ?keyed_set_builder0.0 = "[(1 :: nat, None :: unit option)]"
       and ?keyed_set_builder1.0 = "[]" and n = 1 and vbt = "[count_builder]"
       and D = example_decls and CTX_T = example_ctx_t and ?k0.0 = "key_on 0"
       and ?k1.0 = "key_on 1" and aggs = "[count_star]"
       and create = "\<lambda>c a. count_builder"
       and ctx = "example_ctx [(1, 10), (1, 10), (2, 20)] 0"]
  from t d have f: "two_key_finish example_decls 1 [(1 :: nat, None :: unit option)] [] [count_builder]
       = Inl (CheckFailed ''size ueq'')" by blast
  from t example_two_keys_resolve ne
  have "\<exists>keyed0 keyed1 head rest offs.
          GroupByImpl2 example_decls example_ctx_t (\<lambda>c a. count_builder)
            (example_ctx [(1, 10), (1, 10), (2, 20)] 0) (key_on 0) (key_on 1) [count_star] =
            Inr (Context3 head (KeyCol keyed0 # KeyCol keyed1 # rest) offs)
        \<and> length keyed0 = card (set (map (pair_of_row (key_on 0) (key_on 1))
                  (rows (example_ctx [(1, 10), (1, 10), (2, 20)] 0))))
        \<and> length keyed1 = card (set (map (pair_of_row (key_on 0) (key_on 1))
                  (rows (example_ctx [(1, 10), (1, 10), (2, 20)] 0))))"
    by blast
  then have "\<exists>keyed0 keyed1 head rest offs.
          GroupByImpl2 example_decls example_ctx_t (\<lambda>c a. count_builder)
            (example_ctx [(1, 10), (1, 10), (2, 20)] 0) (key_on 0) (key_on 1) [count_star] =
            Inr (Context3 head (KeyCol keyed0 # KeyCol keyed1 # rest) offs)
        \<and> length keyed0 = 2 \<and> length keyed1 = 2"
    unfolding c .
  with d f example_two_keys_resolve ne c show ?thesis by blast
qed

subsection \<open>One key: group indices and what the builders are fed\<close>

lemma index_of_takeWhile:
  "index_of xs k = Some i \<Longrightarrow> i = length (takeWhile (\<lambda>x. x \<noteq> k) xs)"
proof (induction xs arbitrary: i)
  case Nil
  then show ?case by simp
next
  case (Cons x xs)
  then show ?case by (cases "x = k") auto
qed

lemma takeWhile_notin: "k \<notin> set xs \<Longrightarrow> takeWhile (\<lambda>x. x \<noteq> k) xs = xs"
  by (induction xs) auto

lemma takeWhile_snoc_new: "k \<notin> set xs \<Longrightarrow> takeWhile (\<lambda>x. x \<noteq> k) (xs @ [k]) = xs"
  by (induction xs) auto

lemma takeWhile_append_old:
  "k \<in> set xs \<Longrightarrow> takeWhile (\<lambda>x. x \<noteq> k) (xs @ ys) = takeWhile (\<lambda>x. x \<noteq> k) xs"
  by (induction xs) auto

lemma keyed_insert_index:
  assumes "map fst kb = first_occurrences ks"
  shows "fst (keyed_insert kb k d) = group_index (ks @ [k]) k"
proof (cases "k \<in> set ks")
  case True
  from keyed_insert_old [OF assms True, of d] obtain i
    where i: "keyed_insert kb k d = (i, kb)" "i < length kb" "map fst kb ! i = k" by blast
  from True have "k \<in> set (map fst kb)" using assms by (simp add: set_first_occurrences)
  then obtain j where j: "index_of (map fst kb) k = Some j"
    using index_of_None [of "map fst kb" k] by (cases "index_of (map fst kb) k") auto
  with i have "i = j" by (simp add: keyed_insert_def)
  with index_of_takeWhile [OF j] have "i = length (takeWhile (\<lambda>x. x \<noteq> k) (map fst kb))" by simp
  with i(1) assms True show ?thesis
    by (simp add: group_index_def first_occurrences_snoc)
next
  case False
  then have n: "k \<notin> set (first_occurrences ks)" by (simp add: set_first_occurrences)
  from keyed_insert_new [OF assms False, of d] assms False n show ?thesis
    by (simp add: group_index_def first_occurrences_snoc takeWhile_snoc_new
        length_map [of fst kb, symmetric] del: length_map)
qed

lemma group_index_stable:
  assumes "k \<in> set ks"
  shows "group_index (ks @ [x]) k = group_index ks k"
proof -
  from assms have "k \<in> set (first_occurrences ks)" by (simp add: set_first_occurrences)
  then have "takeWhile (\<lambda>y. y \<noteq> k) (first_occurrences ks @ [x])
           = takeWhile (\<lambda>y. y \<noteq> k) (first_occurrences ks)"
    by (rule takeWhile_append_old)
  then show ?thesis by (simp add: group_index_def first_occurrences_snoc)
qed

lemma insert_to_value_set_builder_map:
  "insert_to_value_set_builder bs e d ind = map (\<lambda>b. vb_insert b ind e d) bs"
  by (induction bs) simp_all

lemma foldl_feed_cong:
  assumes "\<And>r. r \<in> set rs \<Longrightarrow> f r = g r"
  shows "foldl (\<lambda>b iter. vb_insert b (f iter) (GetAllIndexElement iter) (GetAllData iter)) b rs
       = foldl (\<lambda>b iter. vb_insert b (g iter) (GetAllIndexElement iter) (GetAllData iter)) b rs"
  using assms by (induction rs arbitrary: b) simp_all

lemma keyed_loop_feeds:
  "snd (keyed_loop kd rs ([], bs)) =
     map (\<lambda>b. foldl (\<lambda>b iter. vb_insert b
                  (group_index (map (\<lambda>iter. fst (kd iter)) rs) (fst (kd iter)))
                  (GetAllIndexElement iter) (GetAllData iter)) b rs) bs"
proof (induction rs rule: rev_induct)
  case Nil
  show ?case by (simp add: map_idI)
next
  case (snoc x rs)
  obtain kb vbt where l: "keyed_loop kd rs ([], bs) = (kb, vbt)"
    by (cases "keyed_loop kd rs ([], bs)") auto
  from keyed_loop_keys [of kd rs bs] l
  have kb: "map fst kb = first_occurrences (map (\<lambda>iter. fst (kd iter)) rs)" by simp
  from snoc.IH l
  have vbt: "vbt = map (\<lambda>b. foldl (\<lambda>b iter. vb_insert b
                  (group_index (map (\<lambda>iter. fst (kd iter)) rs) (fst (kd iter)))
                  (GetAllIndexElement iter) (GetAllData iter)) b rs) bs" by simp
  have old: "\<And>b. foldl (\<lambda>b iter. vb_insert b
                  (group_index (map (\<lambda>iter. fst (kd iter)) rs @ [fst (kd x)]) (fst (kd iter)))
                  (GetAllIndexElement iter) (GetAllData iter)) b rs
           = foldl (\<lambda>b iter. vb_insert b
                  (group_index (map (\<lambda>iter. fst (kd iter)) rs) (fst (kd iter)))
                  (GetAllIndexElement iter) (GetAllData iter)) b rs"
    by (rule foldl_feed_cong) (simp add: group_index_stable)
  show ?case
    unfolding keyed_loop_snoc [OF l] vbt
    by (simp add: insert_to_value_set_builder_map keyed_insert_index [OF kb] old)
qed

lemma count_insert_old:
  assumes "i < length F" and "distinct F" and "F ! i = k"
  shows "count_insert (map (count_list ks) F) i = map (count_list (ks @ [k])) F"
proof (rule nth_equalityI)
  show "length (count_insert (map (count_list ks) F) i) = length (map (count_list (ks @ [k])) F)"
    using assms(1) by (simp add: count_insert_def)
next
  fix j assume "j < length (count_insert (map (count_list ks) F) i)"
  with assms(1) have j: "j < length F" by (simp add: count_insert_def)
  from assms j have e: "(F ! j = k) = (j = i)" by (auto simp: nth_eq_iff_index_eq)
  from assms(1) j e assms(3)
  show "count_insert (map (count_list ks) F) i ! j = map (count_list (ks @ [k])) F ! j"
    by (cases "j = i") (simp_all add: count_insert_def)
qed

lemma count_insert_new:
  assumes "k \<notin> set ks" and "set F = set ks"
  shows "count_insert (map (count_list ks) F) (length F) = map (count_list (ks @ [k])) (F @ [k])"
proof -
  from assms have "\<And>y. y \<in> set F \<Longrightarrow> y \<noteq> k" by auto
  then have m: "map (count_list (ks @ [k])) F = map (count_list ks) F" by (induction F) auto
  from assms(1) have z: "count_list ks k = 0" by (simp add: count_list_0_iff)
  have u: "\<And>cs::nat list. (cs @ [0])[length cs := Suc ((cs @ [0]) ! length cs)] = cs @ [Suc 0]"
    by simp
  from u [of "map (count_list ks) F"] show ?thesis
    by (simp add: count_insert_def m z Let_def)
qed

lemma keyed_loop_count:
  "snd (keyed_loop kd rs
          ([], [\<lparr>state = [], insert_fn = (\<lambda>vec ind e d. count_insert vec ind), Build_fn = B\<rparr>]))
   = [\<lparr>state = map (count_list (map (\<lambda>iter. fst (kd iter)) rs))
                  (first_occurrences (map (\<lambda>iter. fst (kd iter)) rs)),
       insert_fn = (\<lambda>vec ind e d. count_insert vec ind), Build_fn = B\<rparr>]"
proof (induction rs rule: rev_induct)
  case Nil
  show ?case by simp
next
  case (snoc x rs)
  let ?b0 = "\<lparr>state = [], insert_fn = (\<lambda>vec ind e d. count_insert vec ind), Build_fn = B\<rparr>"
  let ?ks = "map (\<lambda>iter. fst (kd iter)) rs"
  obtain kb vbt where l: "keyed_loop kd rs ([], [?b0]) = (kb, vbt)"
    by (cases "keyed_loop kd rs ([], [?b0])") auto
  from keyed_loop_keys [of kd rs "[?b0]"] l
  have kb: "map fst kb = first_occurrences ?ks" by simp
  then have lk: "length kb = length (first_occurrences ?ks)"
    by (metis length_map)
  from snoc.IH l
  have vbt: "vbt = [\<lparr>state = map (count_list ?ks) (first_occurrences ?ks),
       insert_fn = (\<lambda>vec ind e d. count_insert vec ind), Build_fn = B\<rparr>]" by simp
  show ?case
  proof (cases "fst (kd x) \<in> set ?ks")
    case True
    from keyed_insert_old [OF kb True, of "snd (kd x)"] obtain i
      where i: "keyed_insert kb (fst (kd x)) (snd (kd x)) = (i, kb)" "i < length kb"
        "map fst kb ! i = fst (kd x)" by blast
    from i(2,3) kb lk have i': "i < length (first_occurrences ?ks)"
      "first_occurrences ?ks ! i = fst (kd x)" by simp_all
    from count_insert_old [OF i'(1) distinct_first_occurrences i'(2), of ?ks] True i(1)
    show ?thesis
      unfolding keyed_loop_snoc [OF l] vbt
      by (simp add: vb_insert_def first_occurrences_snoc)
  next
    case False
    from keyed_insert_new [OF kb False, of "snd (kd x)"]
    have n: "keyed_insert kb (fst (kd x)) (snd (kd x)) = (length kb, kb @ [(fst (kd x), snd (kd x))])" .
    from count_insert_new [OF False set_first_occurrences] False
    show ?thesis
      unfolding keyed_loop_snoc [OF l] vbt n
      by (simp add: vb_insert_def first_occurrences_snoc lk)
  qed
qed

lemma nth_group_index:
  "k \<in> set ks \<Longrightarrow> first_occurrences ks ! group_index ks k = k"
proof -
  have a: "\<And>xs. k \<in> set xs \<Longrightarrow> xs ! length (takeWhile (\<lambda>x. x \<noteq> k) xs) = k"
  proof -
    fix xs :: "'a list"
    show "k \<in> set xs \<Longrightarrow> xs ! length (takeWhile (\<lambda>x. x \<noteq> k) xs) = k"
      by (induction xs) auto
  qed
  assume "k \<in> set ks"
  then have "k \<in> set (first_occurrences ks)" by (simp add: set_first_occurrences)
  from a [OF this] show ?thesis by (simp add: group_index_def)
qed

subsection \<open>One key: the assembled context\<close>

lemma GroupResT_one_key_record:
  assumes res: "GroupResT D CTX_T [k] aggs = Some RES_T" and ne: "aggs \<noteq> []"
  shows "\<exists>vals. those (map (GroupValueResT D CTX_T) aggs) = Some vals
      \<and> length vals = length aggs
      \<and> RES_T = \<lparr>head_t = last vals, cur_alias = int (length aggs), base_tag = 0,
                  prev_t = GroupKeyResT D CTX_T k # butlast vals\<rparr>"
proof -
  from GroupResT_one_key [OF res] obtain vals
    where v: "those (map (GroupValueResT D CTX_T) aggs) = Some vals"
      and r: "Rearrange (int (length aggs)) 0 (GroupKeyResT D CTX_T k # vals) = Some RES_T"
    by blast
  have len: "length vals = length aggs" using those_map_length [OF v] .
  with ne obtain x xs where c: "vals = x # xs" by (cases vals) auto
  from r have "RES_T = \<lparr>head_t = last vals, cur_alias = int (length aggs), base_tag = 0,
                  prev_t = GroupKeyResT D CTX_T k # butlast vals\<rparr>"
    unfolding c by simp
  with v len show ?thesis by blast
qed

lemma GroupResT_no_aggregate:
  "GroupResT D CTX_T [k] [] =
     Some \<lparr>head_t = GroupKeyResT D CTX_T k, cur_alias = 0, base_tag = 0, prev_t = []\<rparr>"
  by (simp add: GroupResT_def)

lemma GroupByImpl_no_aggregate:
  "GroupByImpl D CTX_T create get_view ctx k [] = Inl (IllFormed ''std::get<0> of an empty tuple'')"
  by (simp add: GroupByImpl_def GroupResT_no_aggregate create_keyed_value_set_builder_tuple_def)

lemma those_map_Some: "those xs = Some ys \<Longrightarrow> xs = map Some ys"
proof (induction xs arbitrary: ys)
  case Nil
  then show ?case by simp
next
  case (Cons x xs)
  then show ?case by (auto split: option.splits)
qed

lemma keyed_loop_feed_rows:
  "snd (keyed_loop kd rs ([], bs)) =
     map (feed_rows (\<lambda>iter. group_index (map (\<lambda>iter. fst (kd iter)) rs) (fst (kd iter))) rs) bs"
  unfolding feed_rows_def by (rule keyed_loop_feeds)

lemma GroupByImpl_fed:
  assumes res: "GroupResT D CTX_T [k] aggs = Some RES_T" and ne: "aggs \<noteq> []"
  shows "\<exists>keyed bs.
      map fst keyed = first_occurrences (map (key_of_row D get_view k) (rows ctx))
    \<and> map (create_keyed_value_set_builder create (GetPrevCols ctx) (GetHead ctx)) aggs = map Some bs
    \<and> GroupByImpl D CTX_T create get_view ctx k aggs =
        Inr (Context3 (ValCol (grouped_value_set D get_view k ctx (last bs)))
               (KeyCol keyed # map (\<lambda>b. ValCol (grouped_value_set D get_view k ctx b)) (butlast bs))
               (make_offset_vector D (length aggs) (length keyed)))"
proof -
  let ?kd = "\<lambda>iter. (key_of_row D get_view k iter,
        if group_key_on_property k then None
        else get_from_tuple (selector_tag_id D k) (GetAllData iter))"
  from GroupByImpl_result [OF res ne, of create ctx get_view]
  obtain keyed built vbt bs where
      bs: "create_keyed_value_set_builder_tuple create (GetPrevCols ctx) (GetHead ctx) aggs = Some bs"
    and loop: "keyed_loop (\<lambda>iter. (key_of_row D get_view k iter,
        if group_key_on_property k then None
        else get_from_tuple (selector_tag_id D k) (GetAllData iter))) (rows ctx) ([], bs) = (keyed, vbt)"
    and built: "built = build_value_set_tuple vbt"
    and len: "length built = length aggs"
    and run: "GroupByImpl D CTX_T create get_view ctx k aggs =
        Inr (Context3 (ValCol (last built)) (KeyCol keyed # map ValCol (butlast built))
                      (make_offset_vector D (length aggs) (length keyed)))"
    by blast
  from keyed_loop_keys [of ?kd "rows ctx" bs] loop
  have keys: "map fst keyed = first_occurrences (map (key_of_row D get_view k) (rows ctx))"
    by simp
  from keyed_loop_feed_rows [of ?kd "rows ctx" bs] loop
  have "vbt = map (feed_rows (\<lambda>iter. group_index (map (key_of_row D get_view k) (rows ctx))
                                        (key_of_row D get_view k iter)) (rows ctx)) bs"
    by simp
  with built have b: "built = map (grouped_value_set D get_view k ctx) bs"
    by (simp add: build_value_set_tuple_def grouped_value_set_def)
  with len ne have bne: "bs \<noteq> []" by auto
  from b bne have l: "last built = grouped_value_set D get_view k ctx (last bs)"
    by (simp add: last_map)
  from b have bl: "map ValCol (butlast built)
      = map (\<lambda>b. ValCol (grouped_value_set D get_view k ctx b)) (butlast bs)"
    by (simp add: map_butlast comp_def)
  from bs have c: "map (create_keyed_value_set_builder create (GetPrevCols ctx) (GetHead ctx)) aggs
      = map Some bs"
    unfolding create_keyed_value_set_builder_tuple_def by (rule those_map_Some)
  from run keys c show ?thesis unfolding l bl by blast
qed

lemma grouped_value_set_count:
  "grouped_value_set D get_view k ctx count_builder
     = map (count_list (map (key_of_row D get_view k) (rows ctx)))
           (first_occurrences (map (key_of_row D get_view k) (rows ctx)))"
proof -
  let ?kd = "\<lambda>iter. (key_of_row D get_view k iter, None :: 'c option)"
  let ?cb = "\<lparr>state = [], insert_fn = (\<lambda>vec ind (e :: 'a list) (d :: 'c option list). count_insert vec ind),
               Build_fn = (\<lambda>vec :: nat list. vec)\<rparr>"
  have "[feed_rows (\<lambda>iter. group_index (map (key_of_row D get_view k) (rows ctx))
                                        (key_of_row D get_view k iter)) (rows ctx) ?cb]
      = [\<lparr>state = map (count_list (map (key_of_row D get_view k) (rows ctx)))
                       (first_occurrences (map (key_of_row D get_view k) (rows ctx))),
           insert_fn = (\<lambda>vec ind e d. count_insert vec ind), Build_fn = (\<lambda>vec. vec)\<rparr>]"
    using keyed_loop_feed_rows [of ?kd "rows ctx" "[?cb]"]
      keyed_loop_count [of ?kd "rows ctx" "\<lambda>vec. vec"]
    by simp
  then show ?thesis
    by (simp add: grouped_value_set_def count_builder_def vb_Build_def)
qed

text \<open>
  Two runs with two different aggregates over the key column A, A, B, C, B: COUNT and then
  \<open>TO_LIST\<close>, and the two in the other order.  The builder of \<open>TO_LIST\<close> used here
  records the group indices it is fed, in the order of the rows.
\<close>

lemma example_count_then_list_resolve:
  "GroupResT example_decls example_ctx_t [key_on 0] [count_star, to_list_star]
     = Some \<lparr>head_t = Collection (vector (Prim ''int64_t'')), cur_alias = 2, base_tag = 0,
             prev_t = [OtherSet ''KeyedCollection'', Collection size_t]\<rparr>"
  by (simp add: resolve_defs to_list_star_def)

lemma example_list_then_count_resolve:
  "GroupResT example_decls example_ctx_t [key_on 0] [to_list_star, count_star]
     = Some \<lparr>head_t = Collection size_t, cur_alias = 2, base_tag = 0,
             prev_t = [OtherSet ''KeyedCollection'', Collection (vector (Prim ''int64_t''))]\<rparr>"
  by (simp add: resolve_defs to_list_star_def)

lemma example_count_then_list_run:
  "GroupByImpl example_decls example_ctx_t example_create (\<lambda>e. e)
     (letter_ctx ''AABCB'') (key_on 0) [count_star, to_list_star]
   = Inr (Context3 (ValCol [0, 0, 1, 2, 1])
       [KeyCol [(CHR ''A'', None), (CHR ''B'', None), (CHR ''C'', None)], ValCol [2, 2, 1]]
       [[0, 1, 2, 3], [0, 1, 2, 3]])"
  unfolding GroupByImpl_def example_count_then_list_resolve
  by (simp add: run_defs count_star_def to_list_star_def key_on_def example_create_def
      index_log_builder_def)

lemma example_list_then_count_run:
  "GroupByImpl example_decls example_ctx_t example_create (\<lambda>e. e)
     (letter_ctx ''AABCB'') (key_on 0) [to_list_star, count_star]
   = Inr (Context3 (ValCol [2, 2, 1])
       [KeyCol [(CHR ''A'', None), (CHR ''B'', None), (CHR ''C'', None)], ValCol [0, 0, 1, 2, 1]]
       [[0, 1, 2, 3], [0, 1, 2, 3]])"
  unfolding GroupByImpl_def example_list_then_count_resolve
  by (simp add: run_defs count_star_def to_list_star_def key_on_def example_create_def
      index_log_builder_def)

subsection \<open>One key: head and tags\<close>

text \<open>
  C9, as amended: in single-key grouping with \<open>N \<ge> 1\<close> aggregate descriptors the head of
  the output context is the last aggregate column, with tag \<open>N\<close>, and the keyed set is
  the first column, with tag 0: the call returns the context whose head is the value set
  built by the builder of the last descriptor, fed every row at the index of its group,
  and whose previous columns are the keyed set followed by the value sets of the other
  descriptors, in the order of the descriptors.  With no aggregate descriptor the result
  type still resolves to a context whose head is the keyed set at tag 0, but the call is
  ill-formed (the value builders' insertion reads element 0 of an empty tuple), so no such
  context is ever produced.
\<close>

theorem one_key_head_is_last_aggregate:
  assumes res: "GroupResT D CTX_T [k] aggs = Some RES_T" and ne: "aggs \<noteq> []"
  shows "(\<exists>keyed bs.
        map fst keyed = first_occurrences (map (key_of_row D get_view k) (rows ctx))
      \<and> map (create_keyed_value_set_builder create (GetPrevCols ctx) (GetHead ctx)) aggs = map Some bs
      \<and> GroupByImpl D CTX_T create get_view ctx k aggs =
          Inr (Context3 (ValCol (grouped_value_set D get_view k ctx (last bs)))
                 (KeyCol keyed # map (\<lambda>b. ValCol (grouped_value_set D get_view k ctx b)) (butlast bs))
                 (make_offset_vector D (length aggs) (length keyed))))
    \<and> cur_alias RES_T = int (length aggs) \<and> base_tag RES_T = 0
    \<and> last (tags_of RES_T) = int (length aggs)
    \<and> hd (tags_of RES_T) = 0
    \<and> hd (columns_of RES_T) = GroupKeyResT D CTX_T k
    \<and> (\<exists>vals. those (map (GroupValueResT D CTX_T) aggs) = Some vals \<and> head_t RES_T = last vals)
    \<and> GroupResT D CTX_T [k] [] =
         Some \<lparr>head_t = GroupKeyResT D CTX_T k, cur_alias = 0, base_tag = 0, prev_t = []\<rparr>
    \<and> GroupByImpl D CTX_T create get_view ctx k [] =
         Inl (IllFormed ''std::get<0> of an empty tuple'')"
proof -
  note run = GroupByImpl_fed [OF res ne, of get_view ctx create]
  from GroupResT_one_key_record [OF res ne] obtain vals
    where v: "those (map (GroupValueResT D CTX_T) aggs) = Some vals"
      and len: "length vals = length aggs"
      and r: "RES_T = \<lparr>head_t = last vals, cur_alias = int (length aggs), base_tag = 0,
                  prev_t = GroupKeyResT D CTX_T k # butlast vals\<rparr>" by blast
  from GroupResT_one_key [OF res] v
  have rr: "Rearrange (int (length aggs)) 0 (GroupKeyResT D CTX_T k # vals) = Some RES_T"
    by auto
  from ne obtain m where m: "length aggs = Suc m" by (cases aggs) auto
  have up: "[0..<Suc m] = 0 # [Suc 0..<Suc m]" by (simp add: upt_conv_Cons)
  from Rearrange_columns_tags [OF rr] len
  have ct: "columns_of RES_T = GroupKeyResT D CTX_T k # vals"
    "tags_of RES_T = map (\<lambda>i. 0 + int i) [0..<Suc m] @ [int (Suc m)]"
    by (simp_all add: m)
  have t: "cur_alias RES_T = int (length aggs)" "base_tag RES_T = 0"
    "head_t RES_T = last vals"
    unfolding r by simp_all
  have t2: "last (tags_of RES_T) = int (length aggs)" "hd (tags_of RES_T) = 0"
    "hd (columns_of RES_T) = GroupKeyResT D CTX_T k"
    unfolding ct m up by simp_all
  from run t t2 v GroupResT_no_aggregate [of D CTX_T k]
    GroupByImpl_no_aggregate [of D CTX_T create get_view ctx k]
  show ?thesis by blast
qed

theorem one_key_head_is_last_aggregate_witness:
  "GroupResT example_decls example_ctx_t [key_on 0] [count_star, to_list_star]
     = Some \<lparr>head_t = Collection (vector (Prim ''int64_t'')), cur_alias = 2, base_tag = 0,
             prev_t = [OtherSet ''KeyedCollection'', Collection size_t]\<rparr>
   \<and> [count_star, to_list_star] \<noteq> []
   \<and> (\<exists>keyed bs.
        map fst keyed = first_occurrences
          (map (key_of_row example_decls (\<lambda>e. e) (key_on 0)) (rows (letter_ctx ''AABCB'')))
      \<and> map (create_keyed_value_set_builder example_create
               (GetPrevCols (letter_ctx ''AABCB'')) (GetHead (letter_ctx ''AABCB'')))
            [count_star, to_list_star] = map Some bs
      \<and> GroupByImpl example_decls example_ctx_t example_create (\<lambda>e. e)
           (letter_ctx ''AABCB'') (key_on 0) [count_star, to_list_star] =
          Inr (Context3
                 (ValCol (grouped_value_set example_decls (\<lambda>e. e) (key_on 0)
                            (letter_ctx ''AABCB'') (last bs)))
                 (KeyCol keyed #
                  map (\<lambda>b. ValCol (grouped_value_set example_decls (\<lambda>e. e) (key_on 0)
                                      (letter_ctx ''AABCB'') b)) (butlast bs))
                 (make_offset_vector example_decls (length [count_star, to_list_star])
                    (length keyed))))
   \<and> last (tags_of \<lparr>head_t = Collection (vector (Prim ''int64_t'')), cur_alias = 2,
                     base_tag = 0,
                     prev_t = [OtherSet ''KeyedCollection'', Collection size_t]\<rparr>)
       = int (length [count_star, to_list_star])
   \<and> GroupByImpl example_decls example_ctx_t example_create (\<lambda>e. e)
        (letter_ctx ''AABCB'') (key_on 0) [count_star, to_list_star]
      = Inr (Context3 (ValCol [0, 0, 1, 2, 1])
          [KeyCol [(CHR ''A'', None), (CHR ''B'', None), (CHR ''C'', None)], ValCol [2, 2, 1]]
          [[0, 1, 2, 3], [0, 1, 2, 3]])"
proof -
  have ne: "[count_star, to_list_star] \<noteq> []" by simp
  note t = one_key_head_is_last_aggregate [OF example_count_then_list_resolve ne,
      of "\<lambda>e. e" "letter_ctx ''AABCB''" example_create]
  from t have a: "\<exists>keyed bs.
        map fst keyed = first_occurrences
          (map (key_of_row example_decls (\<lambda>e. e) (key_on 0)) (rows (letter_ctx ''AABCB'')))
      \<and> map (create_keyed_value_set_builder example_create
               (GetPrevCols (letter_ctx ''AABCB'')) (GetHead (letter_ctx ''AABCB'')))
            [count_star, to_list_star] = map Some bs
      \<and> GroupByImpl example_decls example_ctx_t example_create (\<lambda>e. e)
           (letter_ctx ''AABCB'') (key_on 0) [count_star, to_list_star] =
          Inr (Context3
                 (ValCol (grouped_value_set example_decls (\<lambda>e. e) (key_on 0)
                            (letter_ctx ''AABCB'') (last bs)))
                 (KeyCol keyed #
                  map (\<lambda>b. ValCol (grouped_value_set example_decls (\<lambda>e. e) (key_on 0)
                                      (letter_ctx ''AABCB'') b)) (butlast bs))
                 (make_offset_vector example_decls (length [count_star, to_list_star])
                    (length keyed)))"
    by (rule conjunct1)
  from t have b: "last (tags_of \<lparr>head_t = Collection (vector (Prim ''int64_t'')), cur_alias = 2,
                     base_tag = 0,
                     prev_t = [OtherSet ''KeyedCollection'', Collection size_t]\<rparr>)
       = int (length [count_star, to_list_star])"
    by blast
  from a b example_count_then_list_resolve ne example_count_then_list_run
  show ?thesis by blast
qed

text \<open>
  The claim as it was stated fails without aggregates: the call gives no context whose
  head is the keyed set, it is rejected.
\<close>

theorem no_output_without_aggregate:
  "GroupByImpl example_decls example_ctx_t (\<lambda>c a. count_builder) (\<lambda>e. e)
     (letter_ctx ''AABCB'') (key_on 0) []
   = Inl (IllFormed ''std::get<0> of an empty tuple'')"
  by (rule GroupByImpl_no_aggregate)

subsection \<open>One key: first occurrences and counts\<close>

text \<open>
  C5: in single-key grouping, with any number of aggregates, the keyed set holds the
  distinct keys in the order of their first occurrence, so the first distinct key has
  index 0, the second index 1, and so on; the value builder of every descriptor is fed
  each row with the index of the row's key in that order, and its value set is the column
  of that descriptor; and the value set of the COUNT builder holds, for group \<open>g\<close>, the
  number of input rows whose key is the key of \<open>g\<close>.  On the key column A, A, B, C, B the
  groups are A, B, C and the counts 2, 2, 1.
\<close>

theorem one_key_first_occurrence_counts:
  assumes res: "GroupResT D CTX_T [k] aggs = Some RES_T" and ne: "aggs \<noteq> []"
  shows "(\<exists>keyed bs.
        map fst keyed = first_occurrences (map (key_of_row D get_view k) (rows ctx))
      \<and> map (create_keyed_value_set_builder create (GetPrevCols ctx) (GetHead ctx)) aggs = map Some bs
      \<and> GroupByImpl D CTX_T create get_view ctx k aggs =
          Inr (Context3 (ValCol (grouped_value_set D get_view k ctx (last bs)))
                 (KeyCol keyed # map (\<lambda>b. ValCol (grouped_value_set D get_view k ctx b)) (butlast bs))
                 (make_offset_vector D (length aggs) (length keyed))))
    \<and> grouped_value_set D get_view k ctx count_builder
        = map (count_list (map (key_of_row D get_view k) (rows ctx)))
              (first_occurrences (map (key_of_row D get_view k) (rows ctx)))
    \<and> list_all (\<lambda>key. first_occurrences (map (key_of_row D get_view k) (rows ctx))
                          ! group_index (map (key_of_row D get_view k) (rows ctx)) key = key)
        (map (key_of_row D get_view k) (rows ctx))
    \<and> GroupByImpl example_decls example_ctx_t (\<lambda>c a. count_builder) (\<lambda>e. e)
        (letter_ctx ''AABCB'') (key_on 0) [count_star]
      = Inr (Context3 (ValCol [2, 2, 1])
          [KeyCol [(CHR ''A'', None), (CHR ''B'', None), (CHR ''C'', None)]]
          [[0, 1, 2, 3]])"
proof -
  note run = GroupByImpl_fed [OF res ne, of get_view ctx create]
  have s: "list_all (\<lambda>key. first_occurrences (map (key_of_row D get_view k) (rows ctx))
                          ! group_index (map (key_of_row D get_view k) (rows ctx)) key = key)
        (map (key_of_row D get_view k) (rows ctx))"
    by (simp add: list_all_iff nth_group_index)
  from run s grouped_value_set_count [of D get_view k ctx] example_letters_count
  show ?thesis by blast
qed

theorem one_key_first_occurrence_counts_witness:
  "GroupResT example_decls example_ctx_t [key_on 0] [to_list_star, count_star]
     = Some \<lparr>head_t = Collection size_t, cur_alias = 2, base_tag = 0,
             prev_t = [OtherSet ''KeyedCollection'', Collection (vector (Prim ''int64_t''))]\<rparr>
   \<and> [to_list_star, count_star] \<noteq> []
   \<and> (\<exists>keyed bs.
        map fst keyed = first_occurrences
          (map (key_of_row example_decls (\<lambda>e. e) (key_on 0)) (rows (letter_ctx ''AABCB'')))
      \<and> map (create_keyed_value_set_builder example_create
               (GetPrevCols (letter_ctx ''AABCB'')) (GetHead (letter_ctx ''AABCB'')))
            [to_list_star, count_star] = map Some bs
      \<and> GroupByImpl example_decls example_ctx_t example_create (\<lambda>e. e)
           (letter_ctx ''AABCB'') (key_on 0) [to_list_star, count_star] =
          Inr (Context3
                 (ValCol (grouped_value_set example_decls (\<lambda>e. e) (key_on 0)
                            (letter_ctx ''AABCB'') (last bs)))
                 (KeyCol keyed #
                  map (\<lambda>b. ValCol (grouped_value_set example_decls (\<lambda>e. e) (key_on 0)
                                      (letter_ctx ''AABCB'') b)) (butlast bs))
                 (make_offset_vector example_decls (length [to_list_star, count_star])
                    (length keyed))))
   \<and> first_occurrences ''AABCB'' = ''ABC''
   \<and> map (count_list ''AABCB'') ''ABC'' = [2, 2, 1]
   \<and> map (group_index ''AABCB'') ''AABCB'' = [0, 0, 1, 2, 1]
   \<and> GroupByImpl example_decls example_ctx_t example_create (\<lambda>e. e)
        (letter_ctx ''AABCB'') (key_on 0) [to_list_star, count_star]
      = Inr (Context3 (ValCol [2, 2, 1])
          [KeyCol [(CHR ''A'', None), (CHR ''B'', None), (CHR ''C'', None)],
           ValCol [0, 0, 1, 2, 1]]
          [[0, 1, 2, 3], [0, 1, 2, 3]])"
proof -
  have ne: "[to_list_star, count_star] \<noteq> []" by simp
  have a: "first_occurrences ''AABCB'' = ''ABC''" by simp
  have b: "map (count_list ''AABCB'') ''ABC'' = [2, 2, 1]" by simp
  have c: "map (group_index ''AABCB'') ''AABCB'' = [0, 0, 1, 2, 1]"
    by (simp add: group_index_def)
  note t = one_key_first_occurrence_counts [OF example_list_then_count_resolve ne,
      of "\<lambda>e. e" "letter_ctx ''AABCB''" example_create]
  from t have d: "\<exists>keyed bs.
        map fst keyed = first_occurrences
          (map (key_of_row example_decls (\<lambda>e. e) (key_on 0)) (rows (letter_ctx ''AABCB'')))
      \<and> map (create_keyed_value_set_builder example_create
               (GetPrevCols (letter_ctx ''AABCB'')) (GetHead (letter_ctx ''AABCB'')))
            [to_list_star, count_star] = map Some bs
      \<and> GroupByImpl example_decls example_ctx_t example_create (\<lambda>e. e)
           (letter_ctx ''AABCB'') (key_on 0) [to_list_star, count_star] =
          Inr (Context3
                 (ValCol (grouped_value_set example_decls (\<lambda>e. e) (key_on 0)
                            (letter_ctx ''AABCB'') (last bs)))
                 (KeyCol keyed #
                  map (\<lambda>b. ValCol (grouped_value_set example_decls (\<lambda>e. e) (key_on 0)
                                      (letter_ctx ''AABCB'') b)) (butlast bs))
                 (make_offset_vector example_decls (length [to_list_star, count_star])
                    (length keyed)))"
    by (rule conjunct1)
  from a b c d ne example_list_then_count_resolve example_list_then_count_run
  show ?thesis by blast
qed

end
